(* ===== verification/Prelude.thy ===== *)
theory Prelude
  imports Main "HOL-Library.Word"
begin

text \<open>
  Shared vocabulary of the development: the machine types of the C source
  (\<open>uint8_t\<close>, \<open>uint32_t\<close>, \<open>uint64_t\<close> as words), the two delimiter bytes of
  the single-line FASTA format, the simp collection \<open>u64_conv\<close> of the
  conversions between \<open>nat\<close> and \<open>64 word\<close> below \<open>2 ^ 64\<close>, and generic
  lemmas on byte lists (slices by \<open>take\<close>/\<open>drop\<close>, \<open>takeWhile\<close>).
\<close>

type_synonym byte = "8 word"
type_synonym u8 = "8 word"
type_synonym u32 = "32 word"
type_synonym u64 = "64 word"

abbreviation NL :: byte where "NL \<equiv> 10"   \<comment> \<open>\<open>'\n'\<close>\<close>
abbreviation GT :: byte where "GT \<equiv> 62"   \<comment> \<open>\<open>'>'\<close>\<close>

named_theorems u64_conv "conversions between nat and 64 word below 2 ^ 64"

subsection \<open>Naturals and 64-bit words\<close>

lemma unat_of_nat_u64 [u64_conv]:
  "n < 2 ^ 64 \<Longrightarrow> unat (word_of_nat n :: u64) = n"
  by (simp add: unat_of_nat)

lemma of_nat_less_u64 [u64_conv]:
  "a < 2 ^ 64 \<Longrightarrow> b < 2 ^ 64 \<Longrightarrow> ((word_of_nat a :: u64) < word_of_nat b) = (a < b)"
  by (simp add: word_less_nat_alt unat_of_nat)

lemma of_nat_le_u64 [u64_conv]:
  "a < 2 ^ 64 \<Longrightarrow> b < 2 ^ 64 \<Longrightarrow> ((word_of_nat a :: u64) \<le> word_of_nat b) = (a \<le> b)"
  by (simp add: word_le_nat_alt unat_of_nat)

lemma of_nat_eq_u64 [u64_conv]:
  "a < 2 ^ 64 \<Longrightarrow> b < 2 ^ 64 \<Longrightarrow> ((word_of_nat a :: u64) = word_of_nat b) = (a = b)"
  by (metis unat_of_nat_u64)

lemma of_nat_Suc_minus_one [simp]:
  "(word_of_nat (Suc n) :: 'a::len word) - 1 = word_of_nat n"
  by simp

lemma of_nat_plus_one [simp]:
  "(word_of_nat n :: 'a::len word) + 1 = word_of_nat (Suc n)"
  by simp

text \<open>
  Comparison of a 64-bit value with a 32-bit one, as C does it: the
  \<open>uint32_t\<close> operand is converted to \<open>uint64_t\<close> (\<open>ucast\<close>), which keeps
  its value.
\<close>

lemma unat_ucast_u32 [simp]: "unat (ucast (m :: u32) :: u64) = unat m"
proof -
  have "unat m < 2 ^ 32" using unsigned_less [of m] by simp
  then have "unat m < 2 ^ 64" by simp
  then show ?thesis by (simp add: unsigned_ucast_eq take_bit_nat_eq_self)
qed

lemma of_nat_less_ucast32 [u64_conv]:
  "n < 2 ^ 64 \<Longrightarrow> ((word_of_nat n :: u64) < ucast (m :: u32)) = (n < unat m)"
  by (simp add: word_less_nat_alt unat_of_nat)

lemma ucast32_less_of_nat [u64_conv]:
  "n < 2 ^ 64 \<Longrightarrow> ((ucast (m :: u32) :: u64) < word_of_nat n) = (unat m < n)"
  by (simp add: word_less_nat_alt unat_of_nat)

subsection \<open>Byte-list slices\<close>

definition slice :: "'a list \<Rightarrow> nat \<Rightarrow> nat \<Rightarrow> 'a list" where
  "slice xs i j = take (j - i) (drop i xs)"

lemma slice_snoc:
  "i \<le> j \<Longrightarrow> j < length xs \<Longrightarrow> slice xs i (Suc j) = slice xs i j @ [xs ! j]"
  by (simp add: slice_def take_Suc_conv_app_nth Suc_diff_le)

lemma slice_empty [simp]: "slice xs i i = []"
  by (simp add: slice_def)

lemma slice_append_prefix:
  "length pre = p \<Longrightarrow> p \<le> i \<Longrightarrow> slice (pre @ xs) i j = slice xs (i - p) (j - p)"
  by (simp add: slice_def)

lemma length_dropWhile_Cons:
  "dropWhile P xs = y # ys \<Longrightarrow> length ys < length xs"
  by (induction xs) (auto split: if_splits)

lemma dropWhile_neq_Cons:
  "dropWhile (\<lambda>b. b \<noteq> c) xs = y # ys \<Longrightarrow> y = c \<and> xs = takeWhile (\<lambda>b. b \<noteq> c) xs @ c # ys"
  by (induction xs) (auto split: if_splits)

lemma slice_Cons:
  "i < j \<Longrightarrow> j \<le> length xs \<Longrightarrow> slice xs i j = xs ! i # slice xs (Suc i) j"
  by (simp add: slice_def Cons_nth_drop_Suc [symmetric] take_Suc_Cons [symmetric] Suc_diff_Suc)

lemma concat_map_singleton:
  "concat (map (\<lambda>x. if P x then [f x] else []) xs) = map f (filter P xs)"
  by (induction xs) auto

lemma of_nat_mod_100_u64:
  "q < 2 ^ 64 \<Longrightarrow> ((word_of_nat q :: u64) mod 100 = 0) = (q mod 100 = 0)"
  by (simp add: unat_arith_simps unat_mod u64_conv)

end
