(* ===== verification/Stdio.thy ===== *)
theory Stdio
  imports Prelude
begin

text \<open>
  The part of C stdio that \<open>read_write_entries\<close> uses, on a file held in
  memory: a \<open>FILE *\<close> opened for reading is its bytes and a cursor; a
  \<open>FILE *\<close> opened for writing is the list of bytes written so far (it is
  never sought, so a list that only grows is exact).  These are the library
  functions the source calls, modelled from their documented behaviour:
  \<^item> \<open>fread(&byte, 1, 1, f) == 1\<close> reads the byte under the cursor and advances
    it, and fails at end of file;
  \<^item> \<open>fgetc\<close> returns the byte as a non-negative \<open>int\<close>, or \<open>EOF = -1\<close> at end
    of file without moving the cursor;
  \<^item> \<open>fputc(c, f)\<close> writes \<open>(unsigned char) c\<close>;
  \<^item> \<open>ftell\<close> returns the cursor, read by the source as \<open>uint64_t\<close>;
  \<^item> \<open>fseek(f, off, SEEK_SET)\<close> and \<open>fseek(f, 0, SEEK_END)\<close> move it;
  \<^item> \<open>fopen\<close> and \<open>fclose\<close> of the output act on a store of files.
\<close>

record stream =
  contents :: "byte list"
  position :: nat

definition fread_byte :: "stream \<Rightarrow> (byte \<times> stream) option" where
  "fread_byte f =
     (if position f < length (contents f)
      then Some (contents f ! position f, f\<lparr>position := Suc (position f)\<rparr>)
      else None)"

definition EOF :: int where "EOF = -1"

definition fgetc :: "stream \<Rightarrow> int \<times> stream" where
  "fgetc f = (case fread_byte f of None \<Rightarrow> (EOF, f) | Some (b, f') \<Rightarrow> (uint b, f'))"

definition fputc :: "int \<Rightarrow> byte list \<Rightarrow> byte list" where
  "fputc c out = out @ [word_of_int c]"

definition ftell :: "stream \<Rightarrow> u64" where
  "ftell f = word_of_nat (position f)"

definition fseek_set :: "stream \<Rightarrow> u64 \<Rightarrow> stream" where
  "fseek_set f off = f\<lparr>position := unat off\<rparr>"

definition fseek_end :: "stream \<Rightarrow> stream" where
  "fseek_end f = f\<lparr>position := length (contents f)\<rparr>"

definition fopen_read :: "byte list \<Rightarrow> stream" where
  "fopen_read bs = \<lparr>contents = bs, position = 0\<rparr>"

text \<open>Opening for writing and closing, on a file system that is a store from
  paths to contents: \<open>fopen(path, "w")\<close> fails where the file cannot be
  written and otherwise creates or truncates it; \<open>fclose\<close> flushes the
  stream, after which the file holds the bytes written to it.\<close>

definition fopen_write :: "(string \<Rightarrow> bool) \<Rightarrow> (string \<rightharpoonup> byte list) \<Rightarrow> string
    \<Rightarrow> (string \<rightharpoonup> byte list) option" where
  "fopen_write writable fs p = (if writable p then Some (fs(p \<mapsto> [])) else None)"

definition fclose_write :: "(string \<rightharpoonup> byte list) \<Rightarrow> string \<Rightarrow> byte list \<Rightarrow> (string \<rightharpoonup> byte list)" where
  "fclose_write fs p out = fs(p \<mapsto> out)"

lemmas stdio_defs = fread_byte_def fgetc_def fputc_def ftell_def fseek_set_def
  fseek_end_def fopen_read_def fopen_write_def fclose_write_def

subsection \<open>Reading a byte and echoing it\<close>

lemma fread_byte_Some:
  "position f < length (contents f) \<Longrightarrow>
   fread_byte f = Some (contents f ! position f, f\<lparr>position := Suc (position f)\<rparr>)"
  by (simp add: fread_byte_def)

lemma fread_byte_None:
  "length (contents f) \<le> position f \<Longrightarrow> fread_byte f = None"
  by (simp add: fread_byte_def)

text \<open>Copying one byte with \<open>fputc(fgetc(f), out)\<close> writes exactly that byte.\<close>

lemma fputc_fgetc:
  assumes "position f < length (contents f)"
  shows "fgetc f = (uint (contents f ! position f), f\<lparr>position := Suc (position f)\<rparr>)"
    and "fputc (uint b) out = out @ [b]"
  using assms by (simp_all add: fgetc_def fread_byte_def fputc_def)

lemma fgetc_EOF:
  "length (contents f) \<le> position f \<Longrightarrow> fgetc f = (EOF, f)"
  by (simp add: fgetc_def fread_byte_def)

end
