(* ===== verification/Engine.thy ===== *)
theory Engine
  imports Stdio
begin

text \<open>
  The scanner/filter engine, \<open>read_write_entries\<close> of \<^verbatim>\<open>src/main.c\<close>
  (lines 44--121), translated statement by statement.  The local variables of
  the C function are the fields of the record \<open>rw_state\<close>, at their C widths
  (\<open>uint64_t\<close> as \<open>u64\<close>); the input \<open>FILE *\<close> is a \<open>stream\<close>, the output
  \<open>FILE *\<close> the list of bytes written to it, and standard output the list of
  lines printed.  The two loops of the function (the outer \<open>fread\<close> loop and
  the inner copy loop that re-reads a kept record after seeking back) are
  \<^theory_text>\<open>partial_function (option)\<close>: \<open>None\<close> is a loop that never ends.
\<close>

subsection \<open>Data\<close>

text \<open>\<open>STATE_NONE\<close>, \<open>STATE_HEADER\<close>, \<open>STATE_SEQUENCE\<close> (lines 44--46).\<close>

datatype parser_state = STATE_NONE | STATE_HEADER | STATE_SEQUENCE

text \<open>
  The lines the program prints on standard output: progress reports
  (line 110, \<open>"\rFiltering by length at %0.2f%%."\<close> of the position and the
  file size), the line break after them (line 115), the three totals
  (lines 118--120), and, for \<open>main\<close>, the help text, the echo of the
  parameters and the two failure messages.
\<close>

datatype stdout_line =
    Progress u64 u64
  | Progress_End
  | Total_Kept u64
  | Total_Bellow u64
  | Total_Above u64
  | Help_Text
  | Show_Input string
  | Show_Output string
  | Show_Minimum u32
  | Show_Maximum u32
  | Failed_Input
  | Failed_Output

text \<open>\<open>struct context\<close> (lines 33--42; \<open>context\<close> is an Isar keyword, hence the prefix) without its two \<open>FILE *\<close> fields, which
  are passed separately.\<close>

record fasta_context =
  print_help :: u8
  file_input_path :: string
  file_output_path :: string
  sequence_length_minimum :: u32
  sequence_length_maximum :: u32
  show_progress :: u8

text \<open>The locals of \<open>read_write_entries\<close> (lines 51--61) and the two files.\<close>

record rw_state =
  state :: parser_state
  header_position :: u64
  sequence_position :: u64
  sequence_size :: u64
  file_position :: u64
  file_size :: u64
  total_of_sequences_kept :: u64
  total_of_sequences_discarded_above_maximum :: u64
  total_of_sequences_discarded_bellow_minimum :: u64
  current_line :: u64
  file_input :: stream
  file_output :: "byte list"
  stdout :: "stdout_line list"

definition PROGRESS_DIVISOR :: u64 where "PROGRESS_DIVISOR = 100"

subsection \<open>Operations\<close>

text \<open>The copy loop of lines 100--102: copy bytes one at a time from the input
  to the output while the input cursor is below \<open>limit\<close>.  At end of file
  \<open>fgetc\<close> returns \<open>EOF\<close> without moving the cursor, so a \<open>limit\<close> beyond the
  end of the file is a loop that never ends.\<close>

partial_function (option) copy_record ::
  "u64 \<Rightarrow> stream \<Rightarrow> byte list \<Rightarrow> (stream \<times> byte list) option" where
  "copy_record limit fin fout =
     (if ftell fin < limit
      then (case fgetc fin of (c, fin') \<Rightarrow> copy_record limit fin' (fputc c fout))
      else Some (fin, fout))"

text \<open>The end of a sequence line (lines 92--103): back to \<open>STATE_NONE\<close>, then
  classify by length; a kept record is copied again from its header by
  seeking back to \<open>header_position\<close>.\<close>

definition end_of_sequence :: "fasta_context \<Rightarrow> rw_state \<Rightarrow> rw_state option" where
  "end_of_sequence ctx s0 =
     (let s = s0\<lparr>state := STATE_NONE\<rparr> in
      if sequence_size s < ucast (sequence_length_minimum ctx)
      then Some (s\<lparr>total_of_sequences_discarded_bellow_minimum :=
                     total_of_sequences_discarded_bellow_minimum s + 1\<rparr>)
      else if ucast (sequence_length_maximum ctx) < sequence_size s
              \<and> 0 < sequence_length_maximum ctx
      then Some (s\<lparr>total_of_sequences_discarded_above_maximum :=
                     total_of_sequences_discarded_above_maximum s + 1\<rparr>)
      else
        (let s1 = s\<lparr>total_of_sequences_kept := total_of_sequences_kept s + 1\<rparr>;
             fin = fseek_set (file_input s1) (header_position s1)
         in case copy_record (sequence_position s1 + sequence_size s1 + 1) fin (file_output s1) of
              None \<Rightarrow> None
            | Some (fin', fout') \<Rightarrow> Some (s1\<lparr>file_input := fin', file_output := fout'\<rparr>)))"

text \<open>The state machine on one byte (lines 77--107).\<close>

definition scan_byte :: "fasta_context \<Rightarrow> byte \<Rightarrow> rw_state \<Rightarrow> rw_state option" where
  "scan_byte ctx byte s =
     (case state s of
        STATE_NONE \<Rightarrow>
          Some (if byte = GT
                then s\<lparr>state := STATE_HEADER, header_position := ftell (file_input s) - 1\<rparr>
                else s)
      | STATE_HEADER \<Rightarrow>
          Some (if byte = NL
                then s\<lparr>state := STATE_SEQUENCE, sequence_position := ftell (file_input s),
                       sequence_size := 0\<rparr>
                else s)
      | STATE_SEQUENCE \<Rightarrow>
          (if byte = NL then end_of_sequence ctx s
           else Some (s\<lparr>sequence_size := sequence_size s + 1\<rparr>)))"

text \<open>The progress report after each byte (lines 108--112).\<close>

definition report_progress :: "fasta_context \<Rightarrow> rw_state \<Rightarrow> rw_state" where
  "report_progress ctx s0 =
     (let s = s0\<lparr>file_position := ftell (file_input s0)\<rparr> in
      if show_progress ctx = 1
         \<and> (file_position s mod PROGRESS_DIVISOR = 0 \<or> file_size s \<le> file_position s)
      then s\<lparr>stdout := stdout s @ [Progress (file_position s) (file_size s)]\<rparr>
      else s)"

text \<open>The body of the \<open>fread\<close> loop for the byte just read (lines 74--112).\<close>

definition loop_body :: "fasta_context \<Rightarrow> byte \<Rightarrow> rw_state \<Rightarrow> rw_state option" where
  "loop_body ctx byte s0 =
     (let s = (if byte = NL then s0\<lparr>current_line := current_line s0 + 1\<rparr> else s0) in
      case scan_byte ctx byte s of
        None \<Rightarrow> None
      | Some s' \<Rightarrow> Some (report_progress ctx s'))"

text \<open>\<open>while (fread(&byte, 1, 1, context->file_input) == 1) { ... }\<close>
  (lines 73--113).\<close>

partial_function (option) read_loop :: "fasta_context \<Rightarrow> rw_state \<Rightarrow> rw_state option" where
  "read_loop ctx s =
     (case fread_byte (file_input s) of
        None \<Rightarrow> Some s
      | Some (byte, fin) \<Rightarrow>
          (case loop_body ctx byte (s\<lparr>file_input := fin\<rparr>) of
             None \<Rightarrow> None
           | Some s' \<Rightarrow> read_loop ctx s'))"

text \<open>Initialisation (lines 62--72): the file size is read by seeking to the
  end, then the cursor is put back at the start.  \<open>file_position\<close> has no
  initialiser in C; it is written before it is read, and 0 stands for it.\<close>

definition init_state :: "stream \<Rightarrow> byte list \<Rightarrow> stdout_line list \<Rightarrow> rw_state" where
  "init_state fin fout out =
     (let fin1 = fseek_end fin;
          size = ftell fin1;
          fin2 = fseek_set fin1 0
      in \<lparr>state = STATE_NONE, header_position = 0, sequence_position = 0,
          sequence_size = 0, file_position = 0, file_size = size,
          total_of_sequences_kept = 0,
          total_of_sequences_discarded_above_maximum = 0,
          total_of_sequences_discarded_bellow_minimum = 0,
          current_line = 1, file_input = fin2, file_output = fout, stdout = out\<rparr>)"

text \<open>After the loop (lines 114--120): the line break closing the progress
  line, then the three totals.\<close>

definition print_totals :: "fasta_context \<Rightarrow> rw_state \<Rightarrow> rw_state" where
  "print_totals ctx s =
     s\<lparr>stdout := stdout s
        @ (if show_progress ctx = 1 then [Progress_End] else [])
        @ [Total_Kept (total_of_sequences_kept s),
           Total_Bellow (total_of_sequences_discarded_bellow_minimum s),
           Total_Above (total_of_sequences_discarded_above_maximum s)]\<rparr>"

definition read_write_entries ::
  "fasta_context \<Rightarrow> stream \<Rightarrow> byte list \<Rightarrow> stdout_line list \<Rightarrow> rw_state option" where
  "read_write_entries ctx fin fout out =
     (case read_loop ctx (init_state fin fout out) of
        None \<Rightarrow> None
      | Some s \<Rightarrow> Some (print_totals ctx s))"

subsection \<open>The copy loop\<close>

text \<open>\<open>past_eof q fin\<close>: the cursor is at or before the end of the file and the
  copy limit \<open>q\<close> lies beyond it.\<close>

definition past_eof :: "nat \<Rightarrow> stream \<Rightarrow> bool" where
  "past_eof q fin \<longleftrightarrow> position fin \<le> length (contents fin) \<and> length (contents fin) < q \<and> q < 2 ^ 64"


text \<open>Below the end of the file the copy loop terminates, leaves the cursor at
  \<open>limit\<close> and appends exactly the bytes from the cursor up to \<open>limit\<close>.\<close>

lemma copy_record_copies:
  assumes "position f \<le> q" and "q \<le> length (contents f)" and "q < 2 ^ 64"
  shows "copy_record (word_of_nat q) f out
           = Some (f\<lparr>position := q\<rparr>, out @ slice (contents f) (position f) q)"
  using assms
proof (induction "q - position f" arbitrary: f out)
  case 0
  then have "position f = q" by simp
  moreover have "\<not> ftell f < word_of_nat q"
    using \<open>position f = q\<close> by (simp add: ftell_def)
  ultimately show ?case by (simp add: copy_record.simps)
next
  case (Suc k)
  let ?b = "contents f ! position f"
  let ?f' = "f\<lparr>position := Suc (position f)\<rparr>"
  have lt: "position f < q" using Suc.hyps by simp
  then have less: "ftell f < word_of_nat q"
    using Suc.prems by (simp add: ftell_def u64_conv)
  have get: "fgetc f = (uint ?b, ?f')"
    using lt Suc.prems by (simp add: fputc_fgetc)
  have IH: "copy_record (word_of_nat q) ?f' (out @ [?b])
              = Some (?f'\<lparr>position := q\<rparr>, (out @ [?b]) @ slice (contents f) (Suc (position f)) q)"
    using Suc.hyps(1) [of ?f' "out @ [?b]"] Suc.hyps(2) Suc.prems lt by simp
  have "slice (contents f) (position f) q = ?b # slice (contents f) (Suc (position f)) q"
    using lt Suc.prems by (simp add: slice_Cons)
  then show ?case
    using less get IH by (subst copy_record.simps) (simp add: fputc_def)
qed

text \<open>C9. When the copy limit lies beyond the end of the file (the file shrank
  between the forward scan and the copy, or a read failed), the copy loop never
  returns: \<open>fgetc\<close> keeps returning \<open>EOF\<close> without moving the cursor, and
  \<open>fputc(EOF)\<close> writes the byte \<open>0xFF\<close> at every turn.\<close>

theorem copy_record_past_eof:
  assumes "position f \<le> length (contents f)" and "length (contents f) < q" and "q < 2 ^ 64"
  shows "copy_record (word_of_nat q) f out = None"
proof (rule ccontr)
  assume "copy_record (word_of_nat q) f out \<noteq> None"
  then obtain y where ret: "copy_record (word_of_nat q) f out = Some y" by auto
  have "word_of_nat q = (word_of_nat q :: u64) \<longrightarrow> \<not> past_eof q f"
  proof (rule copy_record.raw_induct [where P = "\<lambda>lim fin fout y. lim = word_of_nat q \<longrightarrow> \<not> past_eof q fin", OF _ ret])
    fix cr lim fin fout z
    assume IH: "\<And>l fi fo y. cr l fi fo = Some y \<Longrightarrow> l = word_of_nat q \<longrightarrow> \<not> past_eof q fi"
      and eq: "(if ftell fin < lim
               then case fgetc fin of (c, fin') \<Rightarrow> cr lim fin' (fputc c fout)
               else Some (fin, fout)) = Some z"
    show "lim = word_of_nat q \<longrightarrow> \<not> past_eof q fin"
    proof (intro impI notI)
      assume l: "lim = word_of_nat q" and c: "past_eof q fin"
      then have lt: "ftell fin < lim" by (simp add: ftell_def u64_conv past_eof_def)
      show False
      proof (cases "position fin < length (contents fin)")
        case True
        with eq lt have "cr lim (fin\<lparr>position := Suc (position fin)\<rparr>)
                           (fputc (uint (contents fin ! position fin)) fout) = Some z"
          by (simp add: fputc_fgetc)
        from IH [OF this] l c True show False by (simp add: past_eof_def)
      next
        case False
        with c have "length (contents fin) \<le> position fin" by (simp add: past_eof_def)
        with eq lt have "cr lim fin (fputc EOF fout) = Some z"
          by (simp add: fgetc_EOF)
        from IH [OF this] l c show False by simp
      qed
    qed
  qed
  with assms show False by (simp add: past_eof_def)
qed

end
