(* ===== verification/Record_Spec.thy ===== *)
theory Record_Spec
  imports Prelude
begin

text \<open>
  The contract of the engine, stated on records rather than on bytes
  (spec sections 3, 4.1 and 8).  A record of a single-line FASTA file is a
  header line that starts at a \<open>'>'\<close> and the line that follows it; a record
  is complete when both lines end with a newline.  \<open>records\<close> cuts a byte
  list into its complete records, skipping whatever precedes a \<open>'>'\<close>;
  \<open>verdict\<close> is the length classification of section 4.1, and
  \<open>fasta_filter\<close> the output the engine promises: the kept records, in order,
  byte for byte.  Nothing here is code of the repository: this theory is the
  specification the engine is proved to refine.
\<close>

type_synonym fasta_record = "byte list \<times> byte list"
  \<comment> \<open>header line from its \<open>'>'\<close>, sequence line; both without their newline\<close>

text \<open>\<open>split_line bs\<close>: the line at the front of \<open>bs\<close> without its newline, and
  what follows the newline; \<open>None\<close> when no newline ends it.\<close>

definition split_line :: "byte list \<Rightarrow> (byte list \<times> byte list) option" where
  "split_line bs =
     (case dropWhile (\<lambda>b. b \<noteq> NL) bs of
        [] \<Rightarrow> None
      | _ # rest \<Rightarrow> Some (takeWhile (\<lambda>b. b \<noteq> NL) bs, rest))"

text \<open>\<open>next_record bs\<close>: skip to the first \<open>'>'\<close>, take the header line from
  there and the line after it; \<open>None\<close> when no complete record follows.\<close>

definition next_record :: "byte list \<Rightarrow> (fasta_record \<times> byte list) option" where
  "next_record bs =
     (case dropWhile (\<lambda>b. b \<noteq> GT) bs of
        [] \<Rightarrow> None
      | g # r1 \<Rightarrow>
          (case split_line r1 of
             None \<Rightarrow> None
           | Some (h, r2) \<Rightarrow>
               (case split_line r2 of
                  None \<Rightarrow> None
                | Some (sq, rest) \<Rightarrow> Some ((g # h, sq), rest))))"

lemma split_line_length: "split_line bs = Some (l, rest) \<Longrightarrow> length rest < length bs"
  by (auto simp: split_line_def split: list.splits dest: length_dropWhile_Cons)

lemma next_record_length: "next_record bs = Some (r, rest) \<Longrightarrow> length rest < length bs"
  by (fastforce simp: next_record_def split: list.splits option.splits
      dest!: split_line_length length_dropWhile_Cons)

function records :: "byte list \<Rightarrow> fasta_record list" where
  "records bs = (case next_record bs of None \<Rightarrow> [] | Some (r, rest) \<Rightarrow> r # records rest)"
  by pat_completeness auto
termination
  by (relation "measure length") (auto dest: next_record_length)

declare records.simps [simp del]

definition rec_bytes :: "fasta_record \<Rightarrow> byte list" where
  "rec_bytes r = fst r @ NL # snd r @ [NL]"

text \<open>A record as the engine sees it: header from \<open>'>'\<close>, no newline inside either line.\<close>

definition wf_record :: "fasta_record \<Rightarrow> bool" where
  "wf_record r \<longleftrightarrow> (\<exists>h. fst r = GT # h) \<and> NL \<notin> set (fst r) \<and> NL \<notin> set (snd r)"

datatype verdict = Kept | Below | Above

text \<open>Section 4.1, in its order: below the minimum first, then above a
  bounded maximum (\<open>maximum = 0\<close> is unbounded), else kept.\<close>

definition verdict :: "nat \<Rightarrow> nat \<Rightarrow> nat \<Rightarrow> verdict" where
  "verdict mn mx n = (if n < mn then Below else if 0 < mx \<and> mx < n then Above else Kept)"

definition keeps :: "nat \<Rightarrow> nat \<Rightarrow> fasta_record \<Rightarrow> bool" where
  "keeps mn mx r \<longleftrightarrow> verdict mn mx (length (snd r)) = Kept"

definition fasta_filter :: "nat \<Rightarrow> nat \<Rightarrow> byte list \<Rightarrow> byte list" where
  "fasta_filter mn mx bs = concat (map rec_bytes (filter (keeps mn mx) (records bs)))"

definition count_verdict :: "verdict \<Rightarrow> nat \<Rightarrow> nat \<Rightarrow> byte list \<Rightarrow> nat" where
  "count_verdict v mn mx bs = length (filter (\<lambda>r. verdict mn mx (length (snd r)) = v) (records bs))"

subsection \<open>Characteristic equations of \<open>records\<close>\<close>

lemma split_line_line:
  "NL \<notin> set xs \<Longrightarrow> split_line (xs @ NL # ys) = Some (xs, ys)"
  by (simp add: split_line_def dropWhile_append takeWhile_append)

lemma split_line_None: "split_line bs = None \<longleftrightarrow> NL \<notin> set bs"
proof
  assume "split_line bs = None"
  then show "NL \<notin> set bs"
    by (auto simp: split_line_def dropWhile_eq_Nil_conv split: list.splits)
next
  assume "NL \<notin> set bs"
  then have "dropWhile (\<lambda>b. b \<noteq> NL) bs = []"
    by (auto simp: dropWhile_eq_Nil_conv)
  then show "split_line bs = None"
    by (simp only: split_line_def list.case)
qed

lemma split_line_Some:
  "split_line bs = Some (l, rest) \<Longrightarrow> bs = l @ NL # rest \<and> NL \<notin> set l"
  by (auto simp: split_line_def split: list.splits dest: set_takeWhileD dropWhile_neq_Cons)

lemma next_record_skip:
  "GT \<notin> set xs \<Longrightarrow> next_record (xs @ ys) = next_record ys"
  by (simp add: next_record_def dropWhile_append)

lemma next_record_record:
  "NL \<notin> set hs \<Longrightarrow> NL \<notin> set sq \<Longrightarrow>
   next_record (GT # hs @ NL # sq @ NL # rest) = Some ((GT # hs, sq), rest)"
  by (simp add: next_record_def split_line_line)

lemma next_record_Some:
  assumes "next_record bs = Some (r, rest)"
  shows "\<exists>xs hs. GT \<notin> set xs \<and> NL \<notin> set hs \<and> NL \<notin> set (snd r) \<and> fst r = GT # hs
           \<and> bs = xs @ GT # hs @ NL # snd r @ NL # rest"
proof -
  obtain g r1 where d: "dropWhile (\<lambda>b. b \<noteq> GT) bs = g # r1"
    using assms by (auto simp: next_record_def split: list.splits)
  obtain h r2 where h: "split_line r1 = Some (h, r2)"
    using assms d by (auto simp: next_record_def split: option.splits)
  obtain sq where sq: "split_line r2 = Some (sq, rest)" and r: "r = (g # h, sq)"
    using assms d h by (auto simp: next_record_def split: option.splits)
  from dropWhile_neq_Cons [OF d] have "g = GT"
    and bs: "bs = takeWhile (\<lambda>b. b \<noteq> GT) bs @ GT # r1" by auto
  moreover have "GT \<notin> set (takeWhile (\<lambda>b. b \<noteq> GT) bs)"
    by (auto dest: set_takeWhileD)
  moreover note split_line_Some [OF h] split_line_Some [OF sq]
  ultimately show ?thesis using r by fastforce
qed

lemma next_record_None:
  assumes "next_record bs = None"
  shows "GT \<notin> set bs
    \<or> (\<exists>xs hs. GT \<notin> set xs \<and> NL \<notin> set hs \<and> bs = xs @ GT # hs)
    \<or> (\<exists>xs hs sq. GT \<notin> set xs \<and> NL \<notin> set hs \<and> NL \<notin> set sq \<and> bs = xs @ GT # hs @ NL # sq)"
proof (cases "dropWhile (\<lambda>b. b \<noteq> GT) bs")
  case Nil
  then show ?thesis by (auto simp: dropWhile_eq_Nil_conv)
next
  case (Cons g r1)
  from dropWhile_neq_Cons [OF Cons] have bs: "bs = takeWhile (\<lambda>b. b \<noteq> GT) bs @ GT # r1"
    by auto
  have xs: "GT \<notin> set (takeWhile (\<lambda>b. b \<noteq> GT) bs)"
    by (auto dest: set_takeWhileD)
  show ?thesis
  proof (cases "split_line r1")
    case None
    then show ?thesis using bs xs by (auto simp: split_line_None)
  next
    case (Some a)
    then obtain h r2 where h: "split_line r1 = Some (h, r2)" by (cases a) auto
    with assms Cons have "split_line r2 = None" by (auto simp: next_record_def split: option.splits)
    then have "NL \<notin> set r2" by (simp add: split_line_None)
    with split_line_Some [OF h] bs xs show ?thesis by fastforce
  qed
qed

lemma records_None: "next_record bs = None \<Longrightarrow> records bs = []"
  by (simp add: records.simps)

lemma records_Nil [simp]: "records [] = []"
  by (simp add: records_None next_record_def)

lemma records_Some: "next_record bs = Some (r, rest) \<Longrightarrow> records bs = r # records rest"
  by (simp add: records.simps)

lemma records_skip: "GT \<notin> set xs \<Longrightarrow> records (xs @ bs) = records bs"
proof -
  assume "GT \<notin> set xs"
  then have nr: "next_record (xs @ bs) = next_record bs" by (rule next_record_skip)
  show ?thesis
  proof (cases "next_record bs")
    case None
    then show ?thesis using nr by (simp add: records_None)
  next
    case (Some a)
    then show ?thesis using nr by (cases a) (simp add: records_Some)
  qed
qed

text \<open>Bytes with no newline after the last complete record never complete
  another one.\<close>

lemma next_record_no_NL:
  assumes "NL \<notin> set bs"
  shows "next_record bs = None"
proof (cases "dropWhile (\<lambda>b. b \<noteq> GT) bs")
  case Nil
  show ?thesis by (simp add: next_record_def Nil)
next
  case (Cons g r1)
  then have "set r1 \<subseteq> set bs" by (metis set_dropWhileD set_subset_Cons subset_code(1))
  then have "split_line r1 = None" using assms by (auto simp: split_line_None)
  then show ?thesis by (simp add: next_record_def Cons)
qed

lemma next_record_open_sequence:
  "NL \<notin> set hs \<Longrightarrow> NL \<notin> set r \<Longrightarrow> next_record (GT # hs @ NL # r) = None"
  using split_line_None [of r] by (simp add: next_record_def split_line_line)

lemma next_record_append_no_NL:
  assumes "NL \<notin> set t"
  shows "next_record (bs @ t) = map_option (\<lambda>(r, rest). (r, rest @ t)) (next_record bs)"
proof (cases "next_record bs")
  case None
  from next_record_None [OF this] show ?thesis
  proof (elim disjE exE conjE)
    assume "GT \<notin> set bs"
    then show ?thesis using None assms next_record_skip [of bs t] next_record_no_NL [of t]
      by simp
  next
    fix xs hs assume "GT \<notin> set xs" "NL \<notin> set hs" "bs = xs @ GT # hs"
    then show ?thesis
      using None assms next_record_skip [of xs "GT # hs @ t"] next_record_no_NL [of "GT # hs @ t"]
      by simp
  next
    fix xs hs sq assume "GT \<notin> set xs" "NL \<notin> set hs" "NL \<notin> set sq"
      "bs = xs @ GT # hs @ NL # sq"
    then show ?thesis
      using None assms next_record_skip [of xs "GT # hs @ NL # sq @ t"]
        next_record_open_sequence [of hs "sq @ t"]
      by simp
  qed
next
  case (Some a)
  then obtain r rest where nr: "next_record bs = Some (r, rest)" by (cases a) auto
  then obtain xs hs where "GT \<notin> set xs" "NL \<notin> set hs" "NL \<notin> set (snd r)" "fst r = GT # hs"
    and "bs = xs @ GT # hs @ NL # snd r @ NL # rest"
    using next_record_Some by blast
  then show ?thesis using nr by (cases r) (simp add: next_record_skip next_record_record)
qed

lemma records_append_no_NL: "NL \<notin> set t \<Longrightarrow> records (bs @ t) = records bs"
proof (induction bs rule: records.induct)
  case (1 bs)
  show ?case
  proof (cases "next_record bs")
    case None
    then show ?thesis using next_record_append_no_NL [OF "1.prems", of bs]
      by (simp add: records_None)
  next
    case (Some a)
    then obtain r rest where nr: "next_record bs = Some (r, rest)" by (cases a) auto
    then have "next_record (bs @ t) = Some (r, rest @ t)"
      using next_record_append_no_NL [OF "1.prems", of bs] by simp
    then show ?thesis using "1.IH" [OF nr refl "1.prems"] nr by (simp add: records_Some)
  qed
qed

lemma records_wf: "r \<in> set (records bs) \<Longrightarrow> wf_record r"
proof (induction bs rule: records.induct)
  case (1 bs)
  show ?case
  proof (cases "next_record bs")
    case None
    with "1.prems" show ?thesis by (simp add: records_None)
  next
    case (Some a)
    then obtain r' rest where a: "next_record bs = Some (r', rest)" by (cases a) auto
    from "1.prems" a have "r = r' \<or> r \<in> set (records rest)" by (simp add: records_Some)
    then show ?thesis
    proof
      assume "r = r'"
      with next_record_Some [OF a] show ?thesis by (auto simp: wf_record_def)
    next
      assume "r \<in> set (records rest)"
      with "1.IH" a show ?thesis by blast
    qed
  qed
qed

lemma records_rec_bytes:
  "\<forall>r\<in>set rs. wf_record r \<Longrightarrow> records (concat (map rec_bytes rs)) = rs"
proof (induction rs)
  case Nil
  then show ?case by (simp add: records.simps next_record_def)
next
  case (Cons r rs)
  then obtain hs where r: "fst r = GT # hs" "NL \<notin> set hs" "NL \<notin> set (snd r)"
    by (auto simp: wf_record_def)
  then have "next_record (concat (map rec_bytes (r # rs))) = Some (r, concat (map rec_bytes rs))"
    using next_record_record [of hs "snd r" "concat (map rec_bytes rs)"]
    by (cases r) (simp add: rec_bytes_def)
  with Cons show ?case by (simp add: records_Some)
qed

subsection \<open>Lengths, idempotence and the partition of the records\<close>

lemma records_length_le: "length (concat (map rec_bytes (records bs))) \<le> length bs"
proof (induction bs rule: records.induct)
  case (1 bs)
  show ?case
  proof (cases "next_record bs")
    case None
    then show ?thesis by (simp add: records_None)
  next
    case (Some a)
    then obtain r rest where nr: "next_record bs = Some (r, rest)" by (cases a) auto
    then obtain xs hs where h: "fst r = GT # hs"
      and bs: "bs = xs @ GT # hs @ NL # snd r @ NL # rest"
      using next_record_Some by blast
    have "length (concat (map rec_bytes (records rest))) \<le> length rest"
      using "1.IH" [OF nr refl] .
    moreover have "length bs = length xs + length hs + length (snd r) + length rest + 3"
      using bs by simp
    moreover have "length (rec_bytes r) = length hs + length (snd r) + 3"
      using h by (simp add: rec_bytes_def)
    ultimately show ?thesis by (simp add: records_Some [OF nr])
  qed
qed

lemma length_records_le: "length (records bs) \<le> length bs"
proof -
  have "length rs \<le> length (concat (map rec_bytes rs))" for rs
    by (induction rs) (auto simp: rec_bytes_def)
  then show ?thesis using records_length_le order_trans by blast
qed

lemma length_concat_filter_le:
  "length (concat (map f (filter P xs))) \<le> length (concat (map f xs))"
  by (induction xs) auto

lemma fasta_filter_length: "length (fasta_filter mn mx bs) \<le> length bs"
  unfolding fasta_filter_def
  using length_concat_filter_le [of rec_bytes "keeps mn mx" "records bs"] records_length_le
  by (rule order_trans)

lemma records_fasta_filter:
  "records (fasta_filter mn mx bs) = filter (keeps mn mx) (records bs)"
  unfolding fasta_filter_def
  by (rule records_rec_bytes) (auto intro: records_wf)

lemma fasta_filter_idem: "fasta_filter mn mx (fasta_filter mn mx bs) = fasta_filter mn mx bs"
  by (simp add: fasta_filter_def [of mn mx "fasta_filter mn mx bs"] records_fasta_filter)
     (simp add: fasta_filter_def)

lemma length_member_concat: "r \<in> set rs \<Longrightarrow> length (f r) \<le> length (concat (map f rs))"
  by (induction rs) auto

text \<open>A minimum above the length of the input discards every record.\<close>

lemma fasta_filter_below_all: "length bs < mn \<Longrightarrow> fasta_filter mn mx bs = []"
proof -
  assume l: "length bs < mn"
  have "\<not> keeps mn mx r" if "r \<in> set (records bs)" for r
  proof -
    have "length (snd r) < length (rec_bytes r)" by (simp add: rec_bytes_def)
    also have "\<dots> \<le> length (concat (map rec_bytes (records bs)))"
      using that by (rule length_member_concat)
    also have "\<dots> \<le> length bs" by (rule records_length_le)
    finally show ?thesis using l by (simp add: keeps_def verdict_def)
  qed
  then show ?thesis by (simp add: fasta_filter_def filter_False)
qed

lemma count_verdict_sum:
  "count_verdict Kept mn mx bs + count_verdict Below mn mx bs + count_verdict Above mn mx bs
     = length (records bs)"
proof -
  have "length (filter (\<lambda>r. f r = Kept) rs) + length (filter (\<lambda>r. f r = Below) rs)
          + length (filter (\<lambda>r. f r = Above) rs) = length rs" for f :: "fasta_record \<Rightarrow> verdict" and rs
  proof (induction rs)
    case (Cons r rs)
    then show ?case by (cases "f r") auto
  qed simp
  then show ?thesis by (simp add: count_verdict_def)
qed

lemma count_verdict_le: "count_verdict v mn mx bs \<le> length bs"
  using length_records_le [of bs] unfolding count_verdict_def
  by (meson length_filter_le order_trans)

lemma unat_count_verdict:
  "length bs < 2 ^ 64 \<Longrightarrow> unat (word_of_nat (count_verdict v mn mx bs) :: u64) = count_verdict v mn mx bs"
  using count_verdict_le [of v mn mx bs] by (simp add: u64_conv)

end
