(* ===== verification/Scanner.thy ===== *)
theory Scanner
  imports Record_Spec
begin

text \<open>
  The scanner of spec section 9 as a pure transition function:
  \<open>trans ps b p\<close> consumes the byte \<open>b\<close> found at offset \<open>p\<close> in the pending
  state \<open>ps\<close> and returns the next state and, at the end of a sequence line,
  the finalized record \<open>(header_offset, sequence_offset, sequence_length)\<close>.
  \<open>scan\<close> runs it over a byte list and collects the finalized records.  This
  is the abstract machine between the byte-level engine of \<open>Engine\<close> and the
  record-level contract of \<open>Record_Spec\<close>; it is not code of the repository.
\<close>

datatype pending = Idle | InHeader nat | InSequence nat nat nat

type_synonym entry = "nat \<times> nat \<times> nat"

fun trans :: "pending \<Rightarrow> byte \<Rightarrow> nat \<Rightarrow> pending \<times> entry option" where
  "trans Idle b p = (if b = GT then (InHeader p, None) else (Idle, None))"
| "trans (InHeader hp) b p =
     (if b = NL then (InSequence hp (Suc p) 0, None) else (InHeader hp, None))"
| "trans (InSequence hp sp n) b p =
     (if b = NL then (Idle, Some (hp, sp, n)) else (InSequence hp sp (Suc n), None))"

fun scan :: "pending \<Rightarrow> nat \<Rightarrow> byte list \<Rightarrow> entry list" where
  "scan ps p [] = []"
| "scan ps p (b # bs) =
     (case trans ps b p of (ps', ev) \<Rightarrow> (case ev of None \<Rightarrow> [] | Some e \<Rightarrow> [e]) @ scan ps' (Suc p) bs)"

text \<open>The pending state \<open>scan\<close> has reached after a list of bytes.\<close>

fun run :: "pending \<Rightarrow> nat \<Rightarrow> byte list \<Rightarrow> pending" where
  "run ps p [] = ps"
| "run ps p (b # bs) = run (fst (trans ps b p)) (Suc p) bs"

definition entry_bytes :: "byte list \<Rightarrow> entry \<Rightarrow> byte list" where
  "entry_bytes data e = (case e of (hp, sp, n) \<Rightarrow> slice data hp (Suc (sp + n)))"

definition entry_len :: "entry \<Rightarrow> nat" where
  "entry_len e = (case e of (hp, sp, n) \<Rightarrow> n)"

subsection \<open>Scanning one more byte\<close>

lemma run_snoc: "run ps p (xs @ [b]) = fst (trans (run ps p xs) b (p + length xs))"
  by (induction xs arbitrary: ps p) auto

lemma scan_snoc:
  "scan ps p (xs @ [b])
     = scan ps p xs @ (case snd (trans (run ps p xs) b (p + length xs)) of None \<Rightarrow> [] | Some e \<Rightarrow> [e])"
  by (induction xs arbitrary: ps p) (auto split: prod.splits)

subsection \<open>Runs of bytes that cause no transition\<close>

lemma scan_Idle_skip:
  "GT \<notin> set xs \<Longrightarrow> scan Idle p (xs @ ys) = scan Idle (p + length xs) ys"
  by (induction xs arbitrary: p) auto

lemma scan_InHeader_skip:
  "NL \<notin> set xs \<Longrightarrow> scan (InHeader hp) p (xs @ ys) = scan (InHeader hp) (p + length xs) ys"
  by (induction xs arbitrary: p) auto

lemma scan_InSequence_skip:
  "NL \<notin> set xs \<Longrightarrow>
   scan (InSequence hp sp n) p (xs @ ys) = scan (InSequence hp sp (n + length xs)) (p + length xs) ys"
  by (induction xs arbitrary: p n) auto

text \<open>One complete record, from the \<open>'>'\<close> at offset \<open>hp\<close> to its second newline.\<close>

lemma scan_record:
  assumes "NL \<notin> set hs" and "NL \<notin> set sq"
  shows "scan Idle hp (GT # hs @ NL # sq @ NL # rest)
           = (hp, hp + length hs + 2, length sq)
             # scan Idle (hp + length hs + length sq + 3) rest"
proof -
  have "scan Idle hp (GT # hs @ NL # sq @ NL # rest)
        = scan (InHeader hp) (Suc hp) (hs @ NL # sq @ NL # rest)" by simp
  also have "\<dots> = scan (InSequence hp (hp + length hs + 2) 0) (hp + length hs + 2) (sq @ NL # rest)"
    using assms(1) by (simp add: scan_InHeader_skip)
  also have "\<dots> = (hp, hp + length hs + 2, length sq) # scan Idle (hp + length hs + length sq + 3) rest"
    using assms(2) by (simp add: scan_InSequence_skip numeral_3_eq_3)
  finally show ?thesis .
qed

subsection \<open>The scanner finds exactly the complete records\<close>

lemma scan_no_record:
  assumes "next_record bs = None"
  shows "scan Idle p bs = []"
  using next_record_None [OF assms]
proof (elim disjE exE conjE)
  assume "GT \<notin> set bs"
  then show ?thesis using scan_Idle_skip [of bs p "[]"] by simp
next
  fix xs hs
  assume "GT \<notin> set xs" "NL \<notin> set hs" "bs = xs @ GT # hs"
  then show ?thesis
    using scan_InHeader_skip [of hs _ _ "[]"] by (simp add: scan_Idle_skip)
next
  fix xs hs sq
  assume "GT \<notin> set xs" "NL \<notin> set hs" "NL \<notin> set sq" "bs = xs @ GT # hs @ NL # sq"
  then show ?thesis
    using scan_InSequence_skip [of sq _ _ _ _ "[]"]
    by (simp add: scan_Idle_skip scan_InHeader_skip)
qed

theorem scan_records:
  "length pre = p \<Longrightarrow>
   map (\<lambda>e. (entry_bytes (pre @ bs) e, entry_len e)) (scan Idle p bs)
     = map (\<lambda>r. (rec_bytes r, length (snd r))) (records bs)"
proof (induction bs arbitrary: pre p rule: records.induct)
  case (1 bs)
  show ?case
  proof (cases "next_record bs")
    case None
    then show ?thesis by (simp add: scan_no_record records_None)
  next
    case (Some a)
    then obtain r rest where nr: "next_record bs = Some (r, rest)" by (cases a) auto
    then obtain xs hs where xs: "GT \<notin> set xs" and hs: "NL \<notin> set hs"
      and sq: "NL \<notin> set (snd r)" and h: "fst r = GT # hs"
      and bs: "bs = xs @ GT # hs @ NL # snd r @ NL # rest"
      using next_record_Some by blast
    define hp where "hp = p + length xs"
    define pre' where "pre' = pre @ xs @ GT # hs @ NL # snd r @ [NL]"
    have pre': "length pre' = hp + length hs + length (snd r) + 3"
      using "1.prems" by (simp add: pre'_def hp_def)
    have data: "pre @ bs = pre' @ rest" by (simp add: bs pre'_def)
    have scan: "scan Idle p bs = (hp, hp + length hs + 2, length (snd r))
                  # scan Idle (hp + length hs + length (snd r) + 3) rest"
    proof -
      have "scan Idle p bs = scan Idle hp (GT # hs @ NL # snd r @ NL # rest)"
        using xs by (simp add: bs scan_Idle_skip hp_def del: scan.simps(2))
      then show ?thesis using scan_record [OF hs sq, of hp rest] by simp
    qed
    have first: "entry_bytes (pre @ bs) (hp, hp + length hs + 2, length (snd r)) = rec_bytes r"
      using "1.prems" h by (simp add: entry_bytes_def slice_def bs hp_def rec_bytes_def numeral_3_eq_3)
    have IH: "map (\<lambda>e. (entry_bytes (pre' @ rest) e, entry_len e))
                (scan Idle (hp + length hs + length (snd r) + 3) rest)
              = map (\<lambda>r. (rec_bytes r, length (snd r))) (records rest)"
      using "1.IH" [OF nr refl, of pre'] pre' by simp
    show ?thesis
      using scan first IH data by (simp add: records_Some [OF nr] entry_len_def)
  qed
qed

end
