(* ===== verification/Engine_Refinement.thy ===== *)
theory Engine_Refinement
  imports Engine Scanner
begin

text \<open>
  The engine of \<open>Engine\<close> simulates the abstract scanner of \<open>Scanner\<close>:
  \<open>matches data ps s\<close> relates the C state \<open>s\<close> to the pending state \<open>ps\<close>,
  \<open>pending_ok p ps\<close> says that the offsets of \<open>ps\<close> are consistent with the
  cursor, and each iteration of the \<open>fread\<close> loop is one \<open>trans\<close> step whose
  finalized record, if kept, is appended to the output by the seek-and-copy.
\<close>

definition matches :: "byte list \<Rightarrow> pending \<Rightarrow> rw_state \<Rightarrow> bool" where
  "matches data ps s \<longleftrightarrow> contents (file_input s) = data \<and>
     (case ps of
        Idle \<Rightarrow> state s = STATE_NONE
      | InHeader hp \<Rightarrow> state s = STATE_HEADER \<and> header_position s = word_of_nat hp
      | InSequence hp sp n \<Rightarrow> state s = STATE_SEQUENCE \<and> header_position s = word_of_nat hp
          \<and> sequence_position s = word_of_nat sp \<and> sequence_size s = word_of_nat n)"

fun pending_ok :: "nat \<Rightarrow> pending \<Rightarrow> bool" where
  "pending_ok p Idle = True"
| "pending_ok p (InHeader hp) = (hp < p)"
| "pending_ok p (InSequence hp sp n) = (hp < sp \<and> sp + n = p)"

definition entry_verdict :: "fasta_context \<Rightarrow> entry \<Rightarrow> verdict" where
  "entry_verdict ctx e =
     verdict (unat (sequence_length_minimum ctx)) (unat (sequence_length_maximum ctx)) (entry_len e)"

definition emitted :: "fasta_context \<Rightarrow> byte list \<Rightarrow> entry option \<Rightarrow> byte list" where
  "emitted ctx data ev =
     (case ev of None \<Rightarrow> [] | Some e \<Rightarrow> if entry_verdict ctx e = Kept then entry_bytes data e else [])"

definition tally :: "verdict \<Rightarrow> fasta_context \<Rightarrow> entry option \<Rightarrow> nat" where
  "tally v ctx ev = (case ev of None \<Rightarrow> 0 | Some e \<Rightarrow> if entry_verdict ctx e = v then 1 else 0)"

text \<open>What one byte of the scan does to the output and the totals, and the
  fields it leaves alone.\<close>

definition scan_step :: "fasta_context \<Rightarrow> byte list \<Rightarrow> entry option \<Rightarrow> rw_state \<Rightarrow> rw_state \<Rightarrow> bool" where
  "scan_step ctx data ev s s' \<longleftrightarrow>
     file_output s' = file_output s @ emitted ctx data ev
     \<and> total_of_sequences_kept s' = total_of_sequences_kept s + of_nat (tally Kept ctx ev)
     \<and> total_of_sequences_discarded_bellow_minimum s'
         = total_of_sequences_discarded_bellow_minimum s + of_nat (tally Below ctx ev)
     \<and> total_of_sequences_discarded_above_maximum s'
         = total_of_sequences_discarded_above_maximum s + of_nat (tally Above ctx ev)
     \<and> current_line s' = current_line s \<and> file_size s' = file_size s \<and> stdout s' = stdout s"

lemma scan_step_None [simp]: "scan_step ctx data None s s' \<longleftrightarrow>
     file_output s' = file_output s
     \<and> total_of_sequences_kept s' = total_of_sequences_kept s
     \<and> total_of_sequences_discarded_bellow_minimum s' = total_of_sequences_discarded_bellow_minimum s
     \<and> total_of_sequences_discarded_above_maximum s' = total_of_sequences_discarded_above_maximum s
     \<and> current_line s' = current_line s \<and> file_size s' = file_size s \<and> stdout s' = stdout s"
  by (simp add: scan_step_def emitted_def tally_def)

lemma trans_pending_ok:
  "pending_ok p ps \<Longrightarrow> trans ps b p = (ps', ev) \<Longrightarrow> pending_ok (Suc p) ps'"
  by (cases ps) (auto split: if_splits)

lemma verdict_cases:
  "verdict mn mx n = Below \<longleftrightarrow> n < mn"
  "verdict mn mx n = Above \<longleftrightarrow> \<not> n < mn \<and> 0 < mx \<and> mx < n"
  "verdict mn mx n = Kept \<longleftrightarrow> \<not> n < mn \<and> \<not> (0 < mx \<and> mx < n)"
  by (auto simp: verdict_def)

subsection \<open>The end of a sequence line\<close>

lemma end_of_sequence_sim:
  assumes m: "matches data (InSequence hp sp n) s" and ok: "hp < sp" "sp + n = p"
    and pos: "position (file_input s) = Suc p"
    and len: "Suc p \<le> length data" "length data < 2 ^ 64"
  shows "\<exists>s'. end_of_sequence ctx s = Some s' \<and> matches data Idle s'
      \<and> position (file_input s') = Suc p \<and> scan_step ctx data (Some (hp, sp, n)) s s'"
proof -
  let ?mn = "sequence_length_minimum ctx" and ?mx = "sequence_length_maximum ctx"
  have n64: "n < 2 ^ 64" and hp64: "hp < 2 ^ 64" using ok len by auto
  from m have sz: "sequence_size s = word_of_nat n" and hpos: "header_position s = word_of_nat hp"
    and spos: "sequence_position s = word_of_nat sp" and st: "state s = STATE_SEQUENCE"
    and dat: "contents (file_input s) = data"
    by (auto simp: matches_def)
  have below: "(sequence_size s < ucast ?mn) = (n < unat ?mn)"
    using sz n64 by (simp add: u64_conv)
  have above: "(ucast ?mx < sequence_size s \<and> 0 < ?mx) = (0 < unat ?mx \<and> unat ?mx < n)"
    using sz n64 by (auto simp: u64_conv unat_gt_0 word_neq_0_conv [symmetric])
  have ev: "entry_verdict ctx (hp, sp, n) = verdict (unat ?mn) (unat ?mx) n"
    by (simp add: entry_verdict_def entry_len_def)
  show ?thesis
  proof (cases "verdict (unat ?mn) (unat ?mx) n")
    case Below
    then show ?thesis using below above ev m
      by (simp add: end_of_sequence_def verdict_cases matches_def emitted_def tally_def pos scan_step_def)
  next
    case Above
    then show ?thesis using below above ev m
      by (simp add: end_of_sequence_def verdict_cases matches_def emitted_def tally_def pos scan_step_def)
  next
    case Kept
    have lim: "sequence_position s + sequence_size s + 1 = (word_of_nat (Suc p) :: u64)"
      using ok spos sz by (simp flip: of_nat_add)
    have seek: "fseek_set (file_input s) (header_position s) = (file_input s)\<lparr>position := hp\<rparr>"
      using hp64 hpos by (simp add: fseek_set_def u64_conv)
    have copy: "copy_record (sequence_position s + sequence_size s + 1)
                  (fseek_set (file_input s) (header_position s)) (file_output s)
                = Some ((file_input s)\<lparr>position := Suc p\<rparr>, file_output s @ slice data hp (Suc p))"
      using copy_record_copies [of "(file_input s)\<lparr>position := hp\<rparr>" "Suc p" "file_output s"]
        ok len dat lim seek by simp
    have "end_of_sequence ctx s = Some (s\<lparr>state := STATE_NONE,
            total_of_sequences_kept := total_of_sequences_kept s + 1,
            file_input := (file_input s)\<lparr>position := Suc p\<rparr>,
            file_output := file_output s @ slice data hp (Suc p)\<rparr>)"
    proof -
      have g1: "\<not> sequence_size s < ucast ?mn"
        using Kept below by (simp add: verdict_cases)
      have g2: "\<not> (ucast ?mx < sequence_size s \<and> 0 < ?mx)"
        using Kept above unfolding verdict_cases by blast
      show ?thesis using g1 g2 copy by (simp add: end_of_sequence_def Let_def cong: conj_cong)
    qed
    moreover have "entry_bytes data (hp, sp, n) = slice data hp (Suc p)"
      using ok by (simp add: entry_bytes_def)
    ultimately show ?thesis using Kept ev dat
      by (simp add: matches_def emitted_def tally_def scan_step_def)
  qed
qed

subsection \<open>One byte, one iteration\<close>

lemma scan_byte_sim:
  assumes m: "matches data ps s" and ok: "pending_ok p ps"
    and pos: "position (file_input s) = Suc p"
    and len: "Suc p \<le> length data" "length data < 2 ^ 64"
    and tr: "trans ps b p = (ps', ev)"
  shows "\<exists>s'. scan_byte ctx b s = Some s' \<and> matches data ps' s'
      \<and> position (file_input s') = Suc p \<and> scan_step ctx data ev s s'"
proof (cases ps)
  case Idle
  with m tr pos show ?thesis
    by (auto simp: scan_byte_def matches_def ftell_def split: if_splits)
next
  case (InHeader hp)
  with m tr pos show ?thesis
    by (auto simp: scan_byte_def matches_def ftell_def split: if_splits)
next
  case (InSequence hp sp n)
  show ?thesis
  proof (cases "b = NL")
    case True
    with InSequence tr have ev: "ps' = Idle" "ev = Some (hp, sp, n)" by auto
    from m InSequence have "state s = STATE_SEQUENCE" by (simp add: matches_def)
    with True ev InSequence m ok pos len end_of_sequence_sim [of data hp sp n s p ctx]
    show ?thesis by (simp add: scan_byte_def)
  next
    case False
    with InSequence m tr pos show ?thesis
      by (auto simp: scan_byte_def matches_def)
  qed
qed

definition progress_line :: "fasta_context \<Rightarrow> u64 \<Rightarrow> nat \<Rightarrow> stdout_line list" where
  "progress_line ctx fs q =
     (if show_progress ctx = 1 \<and> (word_of_nat q mod PROGRESS_DIVISOR = 0 \<or> fs \<le> word_of_nat q)
      then [Progress (word_of_nat q) fs] else [])"

lemma report_progress_frame [simp]:
  "matches data ps (report_progress ctx s) = matches data ps s"
  "file_input (report_progress ctx s) = file_input s"
  "file_output (report_progress ctx s) = file_output s"
  "total_of_sequences_kept (report_progress ctx s) = total_of_sequences_kept s"
  "total_of_sequences_discarded_bellow_minimum (report_progress ctx s)
     = total_of_sequences_discarded_bellow_minimum s"
  "total_of_sequences_discarded_above_maximum (report_progress ctx s)
     = total_of_sequences_discarded_above_maximum s"
  "current_line (report_progress ctx s) = current_line s"
  "file_size (report_progress ctx s) = file_size s"
  by (simp_all add: report_progress_def Let_def matches_def split: pending.splits)

lemma stdout_report_progress:
  "position (file_input s) = q \<Longrightarrow>
   stdout (report_progress ctx s) = stdout s @ progress_line ctx (file_size s) q"
  by (simp add: report_progress_def progress_line_def Let_def ftell_def)

lemma loop_body_sim:
  assumes m: "matches data ps s" and ok: "pending_ok p ps"
    and pos: "position (file_input s) = Suc p"
    and len: "Suc p \<le> length data" "length data < 2 ^ 64"
    and tr: "trans ps b p = (ps', ev)"
  shows "\<exists>s'. loop_body ctx b s = Some s' \<and> matches data ps' s'
      \<and> position (file_input s') = Suc p
      \<and> file_output s' = file_output s @ emitted ctx data ev
      \<and> total_of_sequences_kept s' = total_of_sequences_kept s + of_nat (tally Kept ctx ev)
      \<and> total_of_sequences_discarded_bellow_minimum s'
          = total_of_sequences_discarded_bellow_minimum s + of_nat (tally Below ctx ev)
      \<and> total_of_sequences_discarded_above_maximum s'
          = total_of_sequences_discarded_above_maximum s + of_nat (tally Above ctx ev)
      \<and> current_line s' = current_line s + (if b = NL then 1 else 0)
      \<and> file_size s' = file_size s
      \<and> stdout s' = stdout s @ progress_line ctx (file_size s) (Suc p)"
proof -
  define s1 where "s1 = (if b = NL then s\<lparr>current_line := current_line s + 1\<rparr> else s)"
  have m1: "matches data ps s1" and pos1: "position (file_input s1) = Suc p"
    using m pos by (auto simp: s1_def matches_def split: pending.splits)
  obtain s2 where sb: "scan_byte ctx b s1 = Some s2" and m2: "matches data ps' s2"
    and pos2: "position (file_input s2) = Suc p" and st: "scan_step ctx data ev s1 s2"
    using scan_byte_sim [OF m1 ok pos1 len tr] by blast
  have body: "loop_body ctx b s = Some (report_progress ctx s2)"
    using sb by (simp add: loop_body_def s1_def Let_def)
  have out: "stdout (report_progress ctx s2) = stdout s2 @ progress_line ctx (file_size s2) (Suc p)"
    using pos2 by (rule stdout_report_progress)
  show ?thesis
    using body m2 pos2 st out by (simp add: scan_step_def s1_def)
qed

subsection \<open>The whole loop\<close>

lemma emitted_tally_list:
  "emitted ctx data ev = concat (map (\<lambda>e. emitted ctx data (Some e)) (case ev of None \<Rightarrow> [] | Some e \<Rightarrow> [e]))"
  "tally v ctx ev = length (filter (\<lambda>e. entry_verdict ctx e = v) (case ev of None \<Rightarrow> [] | Some e \<Rightarrow> [e]))"
  by (cases ev; simp add: emitted_def tally_def)+

lemma scan_Cons_trans:
  "trans ps b p = (ps', ev) \<Longrightarrow>
   scan ps p (b # bs) = (case ev of None \<Rightarrow> [] | Some e \<Rightarrow> [e]) @ scan ps' (Suc p) bs"
  by simp

theorem read_loop_sim:
  assumes "matches data ps s" and "pending_ok p ps" and "position (file_input s) = p"
    and "p \<le> length data" and "length data < 2 ^ 64"
  shows "\<exists>s'. read_loop ctx s = Some s'
    \<and> position (file_input s') = length data \<and> contents (file_input s') = data
    \<and> file_output s' = file_output s
        @ concat (map (\<lambda>e. emitted ctx data (Some e)) (scan ps p (drop p data)))
    \<and> total_of_sequences_kept s' = total_of_sequences_kept s
        + of_nat (length (filter (\<lambda>e. entry_verdict ctx e = Kept) (scan ps p (drop p data))))
    \<and> total_of_sequences_discarded_bellow_minimum s' = total_of_sequences_discarded_bellow_minimum s
        + of_nat (length (filter (\<lambda>e. entry_verdict ctx e = Below) (scan ps p (drop p data))))
    \<and> total_of_sequences_discarded_above_maximum s' = total_of_sequences_discarded_above_maximum s
        + of_nat (length (filter (\<lambda>e. entry_verdict ctx e = Above) (scan ps p (drop p data))))
    \<and> current_line s' = current_line s + of_nat (count_list (drop p data) NL)
    \<and> file_size s' = file_size s
    \<and> stdout s' = stdout s @ concat (map (progress_line ctx (file_size s)) [Suc p..<Suc (length data)])"
  using assms
proof (induction "length data - p" arbitrary: s ps p)
  case 0
  then have p: "p = length data" by simp
  have "fread_byte (file_input s) = None"
    using 0 p by (simp add: fread_byte_None matches_def)
  then show ?case using 0 p by (simp add: read_loop.simps matches_def)
next
  case (Suc k)
  have lt: "p < length data" using Suc.hyps by simp
  let ?b = "data ! p"
  define s0 where "s0 = s\<lparr>file_input := (file_input s)\<lparr>position := Suc p\<rparr>\<rparr>"
  have dat: "contents (file_input s) = data" using Suc.prems by (simp add: matches_def)
  have rd: "fread_byte (file_input s) = Some (?b, (file_input s)\<lparr>position := Suc p\<rparr>)"
    using lt dat Suc.prems by (simp add: fread_byte_Some)
  obtain ps' ev where tr: "trans ps ?b p = (ps', ev)" by (cases "trans ps ?b p")
  have m0: "matches data ps s0" using Suc.prems by (simp add: s0_def matches_def split: pending.splits)
  obtain s1 where body: "loop_body ctx ?b s0 = Some s1" and m1: "matches data ps' s1"
    and pos1: "position (file_input s1) = Suc p"
    and o1: "file_output s1 = file_output s0 @ emitted ctx data ev"
    and k1: "total_of_sequences_kept s1 = total_of_sequences_kept s0 + of_nat (tally Kept ctx ev)"
    and b1: "total_of_sequences_discarded_bellow_minimum s1
               = total_of_sequences_discarded_bellow_minimum s0 + of_nat (tally Below ctx ev)"
    and a1: "total_of_sequences_discarded_above_maximum s1
               = total_of_sequences_discarded_above_maximum s0 + of_nat (tally Above ctx ev)"
    and l1: "current_line s1 = current_line s0 + (if ?b = NL then 1 else 0)"
    and f1: "file_size s1 = file_size s0"
    and so1: "stdout s1 = stdout s0 @ progress_line ctx (file_size s0) (Suc p)"
    using loop_body_sim [OF m0 Suc.prems(2) _ _ Suc.prems(5) tr, of ctx] lt
    by (auto simp: s0_def)
  have ok1: "pending_ok (Suc p) ps'" using trans_pending_ok [OF Suc.prems(2) tr] .
  obtain s' where loop: "read_loop ctx s1 = Some s'" and rest:
    "position (file_input s') = length data \<and> contents (file_input s') = data
    \<and> file_output s' = file_output s1
        @ concat (map (\<lambda>e. emitted ctx data (Some e)) (scan ps' (Suc p) (drop (Suc p) data)))
    \<and> total_of_sequences_kept s' = total_of_sequences_kept s1
        + of_nat (length (filter (\<lambda>e. entry_verdict ctx e = Kept) (scan ps' (Suc p) (drop (Suc p) data))))
    \<and> total_of_sequences_discarded_bellow_minimum s' = total_of_sequences_discarded_bellow_minimum s1
        + of_nat (length (filter (\<lambda>e. entry_verdict ctx e = Below) (scan ps' (Suc p) (drop (Suc p) data))))
    \<and> total_of_sequences_discarded_above_maximum s' = total_of_sequences_discarded_above_maximum s1
        + of_nat (length (filter (\<lambda>e. entry_verdict ctx e = Above) (scan ps' (Suc p) (drop (Suc p) data))))
    \<and> current_line s' = current_line s1 + of_nat (count_list (drop (Suc p) data) NL)
    \<and> file_size s' = file_size s1
    \<and> stdout s' = stdout s1 @ concat (map (progress_line ctx (file_size s1)) [Suc (Suc p)..<Suc (length data)])"
  proof -
    have k: "k = length data - Suc p" using Suc.hyps(2) by simp
    have "Suc p \<le> length data" using lt by simp
    note IH = Suc.hyps(1) [where p = "Suc p" and s = s1 and ps = ps', OF k m1 ok1 pos1 this Suc.prems(5)]
    from IH that show ?thesis by blast
  qed
  have unfold: "read_loop ctx s = read_loop ctx s1"
    using rd body by (subst read_loop.simps) (simp add: s0_def)
  have drop: "drop p data = ?b # drop (Suc p) data" using lt by (simp add: Cons_nth_drop_Suc)
  have sc: "scan ps p (drop p data) = (case ev of None \<Rightarrow> [] | Some e \<Rightarrow> [e]) @ scan ps' (Suc p) (drop (Suc p) data)"
    using drop tr by simp
  have up: "[Suc p..<Suc (length data)] = Suc p # [Suc (Suc p)..<Suc (length data)]"
    using lt by (simp add: upt_conv_Cons)
  have cnt: "(word_of_nat (count_list (drop p data) NL) :: u64)
             = (if ?b = NL then 1 else 0) + word_of_nat (count_list (drop (Suc p) data) NL)"
    using drop by simp
  show ?case
    using unfold loop rest o1 k1 b1 a1 l1 f1 so1
    by (cases ev) (simp_all add: sc up s0_def cnt emitted_def tally_def ac_simps del: upt_Suc)
qed

subsection \<open>From the start of the file: the engine against the contract\<close>

lemma concat_map_filter:
  "concat (map f (filter P xs)) = concat (map (\<lambda>x. if P x then f x else []) xs)"
  by (induction xs) auto

lemma map_eq_map_comp:
  assumes "map f xs = map g ys" shows "map (h \<circ> f) xs = map (h \<circ> g) ys"
  using arg_cong [OF assms, of "map h"] by simp

lemma map_eq_filter_length:
  assumes "map f xs = map g ys" shows "length (filter (P \<circ> f) xs) = length (filter (P \<circ> g) ys)"
proof -
  have "length (filter (P \<circ> f) xs) = length (filter P (map f xs))" by (simp add: filter_map)
  also have "\<dots> = length (filter P (map g ys))" using assms by simp
  also have "\<dots> = length (filter (P \<circ> g) ys)" by (simp add: filter_map)
  finally show ?thesis .
qed

lemma init_state_matches:
  "matches data Idle (init_state (fopen_read data) fout out)"
  "position (file_input (init_state (fopen_read data) fout out)) = 0"
  by (simp_all add: init_state_def matches_def fopen_read_def fseek_end_def fseek_set_def ftell_def)

lemma scan_filter_output:
  "concat (map (\<lambda>e. emitted ctx data (Some e)) (scan Idle 0 data))
     = fasta_filter (unat (sequence_length_minimum ctx)) (unat (sequence_length_maximum ctx)) data"
proof -
  let ?mn = "unat (sequence_length_minimum ctx)" and ?mx = "unat (sequence_length_maximum ctx)"
  have sr: "map (\<lambda>e. (entry_bytes data e, entry_len e)) (scan Idle 0 data)
             = map (\<lambda>r. (rec_bytes r, length (snd r))) (records data)"
    using scan_records [of "[]" 0 data] by simp
  show ?thesis
    using arg_cong [OF map_eq_map_comp [OF sr, of "\<lambda>(bs, n). if verdict ?mn ?mx n = Kept then bs else []"], of concat]
    by (simp add: comp_def emitted_def entry_verdict_def fasta_filter_def concat_map_filter keeps_def)
qed

lemma scan_filter_count:
  "length (filter (\<lambda>e. entry_verdict ctx e = v) (scan Idle 0 data))
     = count_verdict v (unat (sequence_length_minimum ctx)) (unat (sequence_length_maximum ctx)) data"
proof -
  let ?mn = "unat (sequence_length_minimum ctx)" and ?mx = "unat (sequence_length_maximum ctx)"
  have sr: "map (\<lambda>e. (entry_bytes data e, entry_len e)) (scan Idle 0 data)
             = map (\<lambda>r. (rec_bytes r, length (snd r))) (records data)"
    using scan_records [of "[]" 0 data] by simp
  show ?thesis
    using map_eq_filter_length [OF sr, of "\<lambda>p. verdict ?mn ?mx (snd p) = v"]
    by (simp add: comp_def entry_verdict_def count_verdict_def)
qed

theorem read_loop_from_start:
  assumes "length data < 2 ^ 64"
  shows "\<exists>s. read_loop ctx (init_state (fopen_read data) fout out) = Some s
    \<and> position (file_input s) = length data
    \<and> file_output s = fout @ fasta_filter (unat (sequence_length_minimum ctx))
                                  (unat (sequence_length_maximum ctx)) data
    \<and> (\<forall>v. length (filter (\<lambda>e. entry_verdict ctx e = v) (scan Idle 0 data))
           = count_verdict v (unat (sequence_length_minimum ctx)) (unat (sequence_length_maximum ctx)) data)
    \<and> total_of_sequences_kept s = of_nat (count_verdict Kept (unat (sequence_length_minimum ctx))
                                         (unat (sequence_length_maximum ctx)) data)
    \<and> total_of_sequences_discarded_bellow_minimum s
        = of_nat (count_verdict Below (unat (sequence_length_minimum ctx))
                                      (unat (sequence_length_maximum ctx)) data)
    \<and> total_of_sequences_discarded_above_maximum s
        = of_nat (count_verdict Above (unat (sequence_length_minimum ctx))
                                      (unat (sequence_length_maximum ctx)) data)
    \<and> current_line s = 1 + of_nat (count_list data NL)
    \<and> file_size s = of_nat (length data)
    \<and> stdout s = out @ concat (map (progress_line ctx (of_nat (length data))) [1..<Suc (length data)])"
proof -
  let ?s0 = "init_state (fopen_read data) fout out"
  have f0: "file_size ?s0 = of_nat (length data)" "file_output ?s0 = fout"
    "total_of_sequences_kept ?s0 = 0" "total_of_sequences_discarded_bellow_minimum ?s0 = 0"
    "total_of_sequences_discarded_above_maximum ?s0 = 0" "current_line ?s0 = 1" "stdout ?s0 = out"
    by (simp_all add: init_state_def fopen_read_def fseek_end_def ftell_def Let_def)
  from read_loop_sim [OF init_state_matches(1) _ init_state_matches(2) _ assms, of ctx]
  obtain s where "read_loop ctx ?s0 = Some s \<and> position (file_input s) = length data
    \<and> file_output s = file_output ?s0 @ concat (map (\<lambda>e. emitted ctx data (Some e)) (scan Idle 0 data))
    \<and> total_of_sequences_kept s = total_of_sequences_kept ?s0
        + of_nat (length (filter (\<lambda>e. entry_verdict ctx e = Kept) (scan Idle 0 data)))
    \<and> total_of_sequences_discarded_bellow_minimum s = total_of_sequences_discarded_bellow_minimum ?s0
        + of_nat (length (filter (\<lambda>e. entry_verdict ctx e = Below) (scan Idle 0 data)))
    \<and> total_of_sequences_discarded_above_maximum s = total_of_sequences_discarded_above_maximum ?s0
        + of_nat (length (filter (\<lambda>e. entry_verdict ctx e = Above) (scan Idle 0 data)))
    \<and> current_line s = current_line ?s0 + of_nat (count_list data NL)
    \<and> file_size s = file_size ?s0
    \<and> stdout s = stdout ?s0 @ concat (map (progress_line ctx (file_size ?s0)) [Suc 0..<Suc (length data)])"
    by auto
  then show ?thesis
    by (simp only: f0 scan_filter_output scan_filter_count) simp
qed

text \<open>C4. From any state the simulation relates to a scanner state whose offsets
  agree with the cursor, the \<open>fread\<close> loop terminates, with the cursor at the
  end of the file and the file's contents untouched.\<close>

theorem read_loop_terminates:
  assumes "matches data ps s" and "pending_ok p ps" and "position (file_input s) = p"
    and "p \<le> length data" and "length data < 2 ^ 64"
  shows "\<exists>s'. read_loop ctx s = Some s' \<and> position (file_input s') = length data
              \<and> contents (file_input s') = data"
  using read_loop_sim [OF assms, of ctx] by auto

subsection \<open>The whole function\<close>

lemma read_write_entries_result:
  assumes "length data < 2 ^ 64"
  shows "\<exists>s. read_write_entries ctx (fopen_read data) fout out = Some s
    \<and> file_output s = fout @ fasta_filter (unat (sequence_length_minimum ctx))
                                  (unat (sequence_length_maximum ctx)) data
    \<and> total_of_sequences_kept s = of_nat (count_verdict Kept (unat (sequence_length_minimum ctx))
                                         (unat (sequence_length_maximum ctx)) data)
    \<and> total_of_sequences_discarded_bellow_minimum s
        = of_nat (count_verdict Below (unat (sequence_length_minimum ctx))
                                      (unat (sequence_length_maximum ctx)) data)
    \<and> total_of_sequences_discarded_above_maximum s
        = of_nat (count_verdict Above (unat (sequence_length_minimum ctx))
                                      (unat (sequence_length_maximum ctx)) data)
    \<and> current_line s = 1 + of_nat (count_list data NL)
    \<and> stdout s = out @ concat (map (progress_line ctx (of_nat (length data))) [1..<Suc (length data)])
        @ (if show_progress ctx = 1 then [Progress_End] else [])
        @ [Total_Kept (total_of_sequences_kept s),
           Total_Bellow (total_of_sequences_discarded_bellow_minimum s),
           Total_Above (total_of_sequences_discarded_above_maximum s)]"
  using read_loop_from_start [OF assms, of ctx fout out]
  by (auto simp: read_write_entries_def print_totals_def)

lemma progress_line_on_file:
  assumes "show_progress ctx = 1" and "q \<le> L" and "L < 2 ^ 64"
  shows "progress_line ctx (word_of_nat L) q
           = (if q mod 100 = 0 \<or> q = L then [Progress (word_of_nat q) (word_of_nat L)] else [])"
  using assms by (auto simp: progress_line_def PROGRESS_DIVISOR_def of_nat_mod_100_u64 u64_conv)

end
