(* ===== verification/Engine_Steps.thy ===== *)
theory Engine_Steps
  imports Engine_Refinement
begin

text \<open>
  The \<open>fread\<close> loop of \<open>read_write_entries\<close> (lines 73--113) as a step
  relation: \<open>rw_step ctx s s'\<close> is one turn of the loop, reading one byte and
  running the loop body on it.  \<open>rw_reach\<close> are the states the loop passes
  through when \<open>read_write_entries\<close> starts it on a file.  This theory shows
  that \<open>read_loop\<close> computes exactly the final state of the relation, that
  the invariant \<open>rw_inv\<close> (the engine has, at every turn, written and counted
  exactly what the contract asks of the bytes read so far) holds of every
  reachable state, and that every reachable state leads to the end of the
  file.
\<close>

inductive rw_step :: "fasta_context \<Rightarrow> rw_state \<Rightarrow> rw_state \<Rightarrow> bool" for ctx where
  read: "fread_byte (file_input s) = Some (b, fin) \<Longrightarrow>
         loop_body ctx b (s\<lparr>file_input := fin\<rparr>) = Some s' \<Longrightarrow> rw_step ctx s s'"

code_pred rw_step .

inductive_cases rw_stepE: "rw_step ctx s s'"

definition rw_final :: "rw_state \<Rightarrow> bool" where
  "rw_final s \<longleftrightarrow> fread_byte (file_input s) = None"

inductive rw_reach ::
  "fasta_context \<Rightarrow> byte list \<Rightarrow> byte list \<Rightarrow> stdout_line list \<Rightarrow> rw_state \<Rightarrow> bool"
  for ctx data fout out where
  start: "rw_reach ctx data fout out (init_state (fopen_read data) fout out)"
| step: "rw_reach ctx data fout out s \<Longrightarrow> rw_step ctx s s' \<Longrightarrow> rw_reach ctx data fout out s'"

subsection \<open>The loop and the relation\<close>

lemma rw_step_det: "rw_step ctx s s1 \<Longrightarrow> rw_step ctx s s2 \<Longrightarrow> s1 = s2"
  by (auto elim!: rw_stepE)

lemma rw_step_read_loop: "rw_step ctx s s' \<Longrightarrow> read_loop ctx s = read_loop ctx s'"
  by (erule rw_stepE) (subst read_loop.simps, simp)

lemma rw_final_read_loop: "rw_final s \<Longrightarrow> read_loop ctx s = Some s"
  by (subst read_loop.simps) (simp add: rw_final_def)

lemma steps_read_loop:
  "(rw_step ctx)\<^sup>*\<^sup>* s s' \<Longrightarrow> rw_final s' \<Longrightarrow> read_loop ctx s = Some s'"
  by (induction rule: converse_rtranclp_induct) (auto simp: rw_final_read_loop rw_step_read_loop)

lemma read_loop_steps:
  assumes "read_loop ctx s = Some s'"
  shows "(rw_step ctx)\<^sup>*\<^sup>* s s' \<and> rw_final s'"
proof (rule read_loop.raw_induct [where P = "\<lambda>ctx s s'. (rw_step ctx)\<^sup>*\<^sup>* s s' \<and> rw_final s'", OF _ assms])
  fix rl c t t'
  assume IH: "\<And>c t t'. rl c t = Some t' \<Longrightarrow> (rw_step c)\<^sup>*\<^sup>* t t' \<and> rw_final t'"
    and eq: "(case fread_byte (file_input t) of None \<Rightarrow> Some t
              | Some (byte, fin) \<Rightarrow>
                  case loop_body c byte (t\<lparr>file_input := fin\<rparr>) of None \<Rightarrow> None
                  | Some s' \<Rightarrow> rl c s') = Some t'"
  show "(rw_step c)\<^sup>*\<^sup>* t t' \<and> rw_final t'"
  proof (cases "fread_byte (file_input t)")
    case None
    then show ?thesis using eq by (simp add: rw_final_def)
  next
    case (Some a)
    obtain b fin where a: "a = (b, fin)" by (cases a)
    then obtain t1 where body: "loop_body c b (t\<lparr>file_input := fin\<rparr>) = Some t1"
      and rec: "rl c t1 = Some t'"
      using eq Some by (auto split: option.splits)
    have "rw_step c t t1" using Some a body by (auto intro: rw_step.read)
    with IH [OF rec] show ?thesis by (blast intro: converse_rtranclp_into_rtranclp)
  qed
qed

subsection \<open>The scan of the bytes read so far\<close>

text \<open>\<open>entry_end e\<close>: the offset just past the newline that ends the record.\<close>

definition entry_end :: "entry \<Rightarrow> nat" where
  "entry_end e = (case e of (hp, sp, n) \<Rightarrow> Suc (sp + n))"

lemma trans_pending_ok_fst: "pending_ok p ps \<Longrightarrow> pending_ok (Suc p) (fst (trans ps b p))"
  by (cases ps) auto

lemma run_pending_ok: "pending_ok p ps \<Longrightarrow> pending_ok (p + length xs) (run ps p xs)"
proof (induction xs arbitrary: ps p)
  case (Cons b bs)
  from Cons.IH [OF trans_pending_ok_fst [OF Cons.prems, of b]] show ?case by simp
qed simp

lemma trans_entry_end: "pending_ok p ps \<Longrightarrow> snd (trans ps b p) = Some e \<Longrightarrow> entry_end e = Suc p"
  by (cases ps) (auto simp: entry_end_def split: if_splits)

lemma scan_entry_end: "pending_ok p ps \<Longrightarrow> e \<in> set (scan ps p xs) \<Longrightarrow> entry_end e \<le> p + length xs"
proof (induction xs arbitrary: ps p)
  case Nil
  then show ?case by simp
next
  case (Cons b bs)
  obtain ps' ev where tr: "trans ps b p = (ps', ev)" by (cases "trans ps b p")
  have ok': "pending_ok (Suc p) ps'" using trans_pending_ok [OF Cons.prems(1) tr] .
  show ?case
  proof (cases "ev = Some e")
    case True
    then show ?thesis using trans_entry_end [OF Cons.prems(1), of b e] tr by simp
  next
    case False
    then have "e \<in> set (scan ps' (Suc p) bs)" using Cons.prems(2) tr by (auto split: option.splits)
    then show ?thesis using Cons.IH [OF ok'] by simp
  qed
qed

lemma entry_bytes_take: "entry_end e \<le> k \<Longrightarrow> entry_bytes (take k data) e = entry_bytes data e"
  by (auto simp: entry_bytes_def entry_end_def slice_def drop_take take_take min_def split: prod.splits)

lemma emitted_take:
  "pending_ok p ps \<Longrightarrow> snd (trans ps b p) = ev \<Longrightarrow> emitted ctx (take (Suc p) data) ev = emitted ctx data ev"
  by (cases ev) (auto simp: emitted_def entry_bytes_take dest: trans_entry_end)

text \<open>Reading one more byte extends the promised output by what the engine
  emits for it, and each total by its tally.\<close>

lemma fasta_filter_snoc:
  assumes "snd (trans (run Idle 0 xs) b (length xs)) = ev"
  shows "fasta_filter (unat (sequence_length_minimum ctx)) (unat (sequence_length_maximum ctx)) (xs @ [b])
    = fasta_filter (unat (sequence_length_minimum ctx)) (unat (sequence_length_maximum ctx)) xs
      @ emitted ctx (xs @ [b]) ev"
proof -
  have same: "emitted ctx (xs @ [b]) (Some e) = emitted ctx xs (Some e)" if "e \<in> set (scan Idle 0 xs)" for e
  proof -
    have "entry_end e \<le> length xs" using scan_entry_end [OF _ that] by simp
    then show ?thesis
      using entry_bytes_take [of e "length xs" "xs @ [b]"] by (simp add: emitted_def)
  qed
  have "fasta_filter (unat (sequence_length_minimum ctx)) (unat (sequence_length_maximum ctx)) (xs @ [b])
      = concat (map (\<lambda>e. emitted ctx (xs @ [b]) (Some e)) (scan Idle 0 (xs @ [b])))"
    by (rule scan_filter_output [symmetric])
  also have "\<dots> = concat (map (\<lambda>e. emitted ctx (xs @ [b]) (Some e)) (scan Idle 0 xs))
                  @ emitted ctx (xs @ [b]) ev"
    using assms by (cases ev) (simp_all add: scan_snoc emitted_def)
  also have "concat (map (\<lambda>e. emitted ctx (xs @ [b]) (Some e)) (scan Idle 0 xs))
      = concat (map (\<lambda>e. emitted ctx xs (Some e)) (scan Idle 0 xs))"
    using same by (intro arg_cong [where f = concat] map_cong) auto
  also have "\<dots> = fasta_filter (unat (sequence_length_minimum ctx)) (unat (sequence_length_maximum ctx)) xs"
    by (rule scan_filter_output)
  finally show ?thesis .
qed

lemma count_verdict_snoc:
  assumes "snd (trans (run Idle 0 xs) b (length xs)) = ev"
  shows "count_verdict v (unat (sequence_length_minimum ctx)) (unat (sequence_length_maximum ctx)) (xs @ [b])
    = count_verdict v (unat (sequence_length_minimum ctx)) (unat (sequence_length_maximum ctx)) xs
      + tally v ctx ev"
  using scan_filter_count [of ctx v "xs @ [b]"] scan_filter_count [of ctx v xs] assms
  by (cases ev) (auto simp: scan_snoc tally_def)

subsection \<open>The invariant of the loop\<close>

text \<open>At every turn of the loop, with \<open>p\<close> the bytes read so far: the file
  is the input, its size is known, the parser state is the one the scanner
  reaches on those \<open>p\<close> bytes, the output holds what the contract promises for
  them, each total counts their complete records of its class, the line
  counter counts their newlines, and standard output holds the progress lines
  of positions \<open>1\<close> to \<open>p\<close>.\<close>

definition rw_inv :: "fasta_context \<Rightarrow> byte list \<Rightarrow> byte list \<Rightarrow> stdout_line list \<Rightarrow> rw_state \<Rightarrow> bool" where
  "rw_inv ctx data fout out s \<longleftrightarrow>
     (let p = position (file_input s);
          mn = unat (sequence_length_minimum ctx); mx = unat (sequence_length_maximum ctx)
      in contents (file_input s) = data \<and> p \<le> length data
       \<and> file_size s = word_of_nat (length data)
       \<and> matches data (run Idle 0 (take p data)) s
       \<and> file_output s = fout @ fasta_filter mn mx (take p data)
       \<and> total_of_sequences_kept s = word_of_nat (count_verdict Kept mn mx (take p data))
       \<and> total_of_sequences_discarded_bellow_minimum s
           = word_of_nat (count_verdict Below mn mx (take p data))
       \<and> total_of_sequences_discarded_above_maximum s
           = word_of_nat (count_verdict Above mn mx (take p data))
       \<and> current_line s = 1 + word_of_nat (count_list (take p data) NL)
       \<and> stdout s = out @ concat (map (progress_line ctx (file_size s)) [1..<Suc p]))"

lemma rw_inv_init: "rw_inv ctx data fout out (init_state (fopen_read data) fout out)"
  by (simp add: rw_inv_def init_state_def fopen_read_def fseek_end_def fseek_set_def ftell_def
      matches_def fasta_filter_def count_verdict_def)

lemma rw_step_inv:
  assumes inv: "rw_inv ctx data fout out s" and st: "rw_step ctx s s'" and len: "length data < 2 ^ 64"
  shows "rw_inv ctx data fout out s'"
proof -
  let ?p = "position (file_input s)"
  let ?mn = "unat (sequence_length_minimum ctx)" and ?mx = "unat (sequence_length_maximum ctx)"
  define xs where "xs = take ?p data"
  from st obtain b fin where rd: "fread_byte (file_input s) = Some (b, fin)"
    and body: "loop_body ctx b (s\<lparr>file_input := fin\<rparr>) = Some s'"
    by (auto elim: rw_stepE)
  have dat: "contents (file_input s) = data" and m: "matches data (run Idle 0 xs) s"
    using inv by (simp_all add: rw_inv_def Let_def xs_def)
  have lt: "?p < length data" and b: "b = data ! ?p"
    and fin: "fin = (file_input s)\<lparr>position := Suc ?p\<rparr>"
    using rd dat by (auto simp: fread_byte_def split: if_splits)
  have xs_len: "length xs = ?p" using lt by (simp add: xs_def)
  have take_Suc: "take (Suc ?p) data = xs @ [b]" using lt b by (simp add: xs_def take_Suc_conv_app_nth)
  obtain ps' ev where tr: "trans (run Idle 0 xs) b ?p = (ps', ev)" by (cases "trans (run Idle 0 xs) b ?p")
  have ok: "pending_ok ?p (run Idle 0 xs)" using run_pending_ok [of 0 Idle xs] xs_len by simp
  have m0: "matches data (run Idle 0 xs) (s\<lparr>file_input := fin\<rparr>)"
    using m dat fin by (simp add: matches_def split: pending.splits)
  obtain s1 where b1: "loop_body ctx b (s\<lparr>file_input := fin\<rparr>) = Some s1"
    and m1: "matches data ps' s1" and pos1: "position (file_input s1) = Suc ?p"
    and o1: "file_output s1 = file_output s @ emitted ctx data ev"
    and k1: "total_of_sequences_kept s1 = total_of_sequences_kept s + of_nat (tally Kept ctx ev)"
    and w1: "total_of_sequences_discarded_bellow_minimum s1
               = total_of_sequences_discarded_bellow_minimum s + of_nat (tally Below ctx ev)"
    and a1: "total_of_sequences_discarded_above_maximum s1
               = total_of_sequences_discarded_above_maximum s + of_nat (tally Above ctx ev)"
    and l1: "current_line s1 = current_line s + (if b = NL then 1 else 0)"
    and f1: "file_size s1 = file_size s"
    and so1: "stdout s1 = stdout s @ progress_line ctx (file_size s) (Suc ?p)"
    using loop_body_sim [OF m0 ok _ _ len tr, of ctx] lt fin by auto
  have s1: "s1 = s'" using b1 body by simp
  have ev: "snd (trans (run Idle 0 xs) b (length xs)) = ev" using tr xs_len by simp
  have run': "run Idle 0 (xs @ [b]) = ps'" using tr xs_len by (simp add: run_snoc)
  have em: "emitted ctx (xs @ [b]) ev = emitted ctx data ev"
    using emitted_take [OF ok, of b ev ctx data] tr take_Suc by simp
  have fs: "file_size s = word_of_nat (length data)"
    and fo: "file_output s = fout @ fasta_filter ?mn ?mx xs"
    and ko: "total_of_sequences_kept s = word_of_nat (count_verdict Kept ?mn ?mx xs)"
    and wo: "total_of_sequences_discarded_bellow_minimum s = word_of_nat (count_verdict Below ?mn ?mx xs)"
    and ao: "total_of_sequences_discarded_above_maximum s = word_of_nat (count_verdict Above ?mn ?mx xs)"
    and lo: "current_line s = 1 + word_of_nat (count_list xs NL)"
    and so: "stdout s = out @ concat (map (progress_line ctx (file_size s)) [1..<Suc ?p])"
    using inv by (simp_all add: rw_inv_def Let_def xs_def)
  have "file_output s' = fout @ fasta_filter ?mn ?mx (xs @ [b])"
    using o1 fo s1 fasta_filter_snoc [OF ev, of ctx] em by simp
  moreover have "total_of_sequences_kept s' = word_of_nat (count_verdict Kept ?mn ?mx (xs @ [b]))"
    using k1 ko s1 count_verdict_snoc [OF ev, of Kept ctx] by (simp add: ac_simps)
  moreover have "total_of_sequences_discarded_bellow_minimum s'
      = word_of_nat (count_verdict Below ?mn ?mx (xs @ [b]))"
    using w1 wo s1 count_verdict_snoc [OF ev, of Below ctx] by (simp add: ac_simps)
  moreover have "total_of_sequences_discarded_above_maximum s'
      = word_of_nat (count_verdict Above ?mn ?mx (xs @ [b]))"
    using a1 ao s1 count_verdict_snoc [OF ev, of Above ctx] by (simp add: ac_simps)
  moreover have "current_line s' = 1 + word_of_nat (count_list (xs @ [b]) NL)"
    using l1 lo s1 by (simp add: ac_simps)
  moreover have "stdout s' = out @ concat (map (progress_line ctx (file_size s')) [1..<Suc (Suc ?p)])"
    using so1 so s1 f1 by (simp add: upt_Suc_append del: upt_Suc)
  moreover have "contents (file_input s') = data" "matches data (run Idle 0 (xs @ [b])) s'"
    "file_size s' = word_of_nat (length data)" "position (file_input s') = Suc ?p"
    using m1 s1 run' f1 fs pos1 by (simp_all add: matches_def)
  ultimately show ?thesis
    using lt unfolding rw_inv_def Let_def by (simp only: take_Suc) simp
qed

lemma rw_reach_inv: "rw_reach ctx data fout out s \<Longrightarrow> length data < 2 ^ 64 \<Longrightarrow> rw_inv ctx data fout out s"
  by (induction rule: rw_reach.induct) (auto intro: rw_inv_init rw_step_inv)

subsection \<open>What the scanner's pending state says about the bytes read\<close>

text \<open>A pending header starts at a \<open>'>'\<close> already read; a pending sequence
  line starts after a newline and runs to the cursor.\<close>

fun pending_wf :: "byte list \<Rightarrow> pending \<Rightarrow> bool" where
  "pending_wf xs Idle = True"
| "pending_wf xs (InHeader hp) = (hp < length xs \<and> xs ! hp = GT)"
| "pending_wf xs (InSequence hp sp n) =
     (hp < sp \<and> sp + n = length xs \<and> xs ! hp = GT \<and> xs ! (sp - 1) = NL)"

lemma trans_pending_wf:
  "pending_wf xs ps \<Longrightarrow> pending_wf (xs @ [b]) (fst (trans ps b (length xs)))"
  by (cases ps) (auto simp: nth_append)

lemma run_pending_wf: "pending_wf xs (run Idle 0 xs)"
  by (induction xs rule: rev_induct) (simp_all add: run_snoc trans_pending_wf)

subsection \<open>The output file only grows\<close>

lemma copy_record_appends:
  assumes "copy_record lim fin fout = Some (fin', fout')"
  shows "\<exists>r. fout' = fout @ r"
proof -
  have "\<exists>r. snd (fin', fout') = fout @ r"
  proof (rule copy_record.raw_induct [where P = "\<lambda>lim fin fout y. \<exists>r. snd y = fout @ r", OF _ assms])
    fix cr lim fin fout y
    assume IH: "\<And>l fi fo y. cr l fi fo = Some y \<Longrightarrow> \<exists>r. snd y = fo @ r"
      and eq: "(if ftell fin < lim
               then case fgetc fin of (c, fin') \<Rightarrow> cr lim fin' (fputc c fout)
               else Some (fin, fout)) = Some y"
    show "\<exists>r. snd y = fout @ r"
    proof (cases "ftell fin < lim")
      case True
      obtain c f' where g: "fgetc fin = (c, f')" by (cases "fgetc fin")
      with eq True have "cr lim f' (fputc c fout) = Some y" by simp
      from IH [OF this] show ?thesis by (auto simp: fputc_def)
    next
      case False
      with eq show ?thesis by auto
    qed
  qed
  then show ?thesis by simp
qed

lemma loop_body_appends:
  assumes "loop_body ctx b s = Some s'"
  shows "\<exists>r. file_output s' = file_output s @ r"
proof -
  have eos: "end_of_sequence ctx t = Some t' \<Longrightarrow> \<exists>r. file_output t' = file_output t @ r" for t t'
    by (auto simp: end_of_sequence_def Let_def split: if_splits option.splits
        dest!: copy_record_appends)
  have sb: "scan_byte ctx b t = Some t' \<Longrightarrow> \<exists>r. file_output t' = file_output t @ r" for t t'
    by (auto simp: scan_byte_def split: parser_state.splits if_splits dest: eos)
  define t where "t = (if b = NL then s\<lparr>current_line := current_line s + 1\<rparr> else s)"
  obtain t' where "scan_byte ctx b t = Some t'" and "s' = report_progress ctx t'"
    using assms by (auto simp: loop_body_def Let_def t_def split: option.splits)
  moreover have "file_output t = file_output s" by (simp add: t_def)
  ultimately show ?thesis using sb by fastforce
qed

lemma rw_steps_append:
  "(rw_step ctx)\<^sup>*\<^sup>* s s' \<Longrightarrow> \<exists>r. file_output s' = file_output s @ r"
proof (induction rule: rtranclp_induct)
  case (step t t')
  then obtain r where "file_output t = file_output s @ r" by blast
  moreover from step.hyps(2) obtain r' where "file_output t' = file_output t @ r'"
    by (auto elim!: rw_stepE dest!: loop_body_appends)
  ultimately show ?case by auto
qed auto

subsection \<open>Reachable states\<close>

lemma rw_reach_steps:
  "(rw_step ctx)\<^sup>*\<^sup>* s s' \<Longrightarrow> rw_reach ctx data fout out s \<Longrightarrow> rw_reach ctx data fout out s'"
  by (induction rule: rtranclp_induct) (auto intro: rw_reach.step)

lemma rw_inv_read_loop:
  assumes "rw_inv ctx data fout out s" and "length data < 2 ^ 64"
  shows "\<exists>s'. read_loop ctx s = Some s'"
proof -
  let ?p = "position (file_input s)"
  have "matches data (run Idle 0 (take ?p data)) s" and "?p \<le> length data"
    using assms(1) by (simp_all add: rw_inv_def Let_def)
  moreover have "pending_ok ?p (run Idle 0 (take ?p data))"
    using run_pending_ok [of 0 Idle "take ?p data"] \<open>?p \<le> length data\<close> by simp
  ultimately show ?thesis using read_loop_sim [OF _ _ refl _ assms(2)] by blast
qed

lemma rw_inv_final:
  "rw_inv ctx data fout out s \<Longrightarrow> rw_final s \<Longrightarrow> position (file_input s) = length data"
  by (simp add: rw_inv_def Let_def rw_final_def fread_byte_def split: if_splits)

lemma rw_reach_final:
  assumes "rw_reach ctx data fout out s" and "length data < 2 ^ 64"
  shows "\<exists>s'. (rw_step ctx)\<^sup>*\<^sup>* s s' \<and> rw_final s' \<and> rw_reach ctx data fout out s'"
proof -
  obtain s' where "read_loop ctx s = Some s'"
    using rw_inv_read_loop [OF rw_reach_inv [OF assms] assms(2)] by blast
  then have "(rw_step ctx)\<^sup>*\<^sup>* s s'" and "rw_final s'" using read_loop_steps by blast+
  then show ?thesis using rw_reach_steps assms(1) by blast
qed

subsection \<open>Properties of the loop\<close>

text \<open>C16. \<open>rw_inv\<close> is an inductive invariant of the \<open>fread\<close> loop: it holds
  in the state \<open>read_write_entries\<close> starts the loop in, and every turn of the
  loop from a state satisfying it leads to a state satisfying it.\<close>

theorem rw_inv_inductive:
  assumes "length data < 2 ^ 64"
  shows "rw_inv ctx data fout out (init_state (fopen_read data) fout out)
    \<and> (\<forall>s s'. rw_inv ctx data fout out s \<and> rw_step ctx s s' \<longrightarrow> rw_inv ctx data fout out s')"
  using rw_inv_init rw_step_inv [OF _ _ assms] by blast

text \<open>C17. Streaming safety: at every turn of the loop, the output file holds
  exactly the kept records among the complete records read so far, and is a
  prefix of the final output; the engine never writes a record it has not
  finished reading, nor one it will not keep.\<close>

theorem rw_reach_output_prefix:
  assumes "rw_reach ctx data fout out s" and "length data < 2 ^ 64"
  shows "file_output s = fout @ fasta_filter (unat (sequence_length_minimum ctx))
                          (unat (sequence_length_maximum ctx)) (take (position (file_input s)) data)
    \<and> (\<exists>r. fout @ fasta_filter (unat (sequence_length_minimum ctx))
                   (unat (sequence_length_maximum ctx)) data = file_output s @ r)"
proof -
  obtain s' where st: "(rw_step ctx)\<^sup>*\<^sup>* s s'" and fin: "rw_final s'"
    and r': "rw_reach ctx data fout out s'"
    using rw_reach_final [OF assms] by blast
  have inv': "rw_inv ctx data fout out s'" using rw_reach_inv [OF r' assms(2)] .
  have "position (file_input s') = length data" using rw_inv_final [OF inv' fin] .
  then have "file_output s' = fout @ fasta_filter (unat (sequence_length_minimum ctx))
                                 (unat (sequence_length_maximum ctx)) data"
    using inv' by (simp add: rw_inv_def Let_def)
  moreover obtain r where "file_output s' = file_output s @ r" using rw_steps_append [OF st] by blast
  ultimately have "fout @ fasta_filter (unat (sequence_length_minimum ctx))
      (unat (sequence_length_maximum ctx)) data = file_output s @ r" by simp
  moreover have "file_output s = fout @ fasta_filter (unat (sequence_length_minimum ctx))
      (unat (sequence_length_maximum ctx)) (take (position (file_input s)) data)"
    using rw_reach_inv [OF assms] by (simp add: rw_inv_def Let_def)
  ultimately show ?thesis by blast
qed

text \<open>C18. The invariant of spec section 4.1: at any instant, the three
  totals, read as unbounded numbers, add up to the number of complete records
  among the bytes read so far.\<close>

theorem rw_reach_totals:
  assumes "rw_reach ctx data fout out s" and "length data < 2 ^ 64"
  shows "unat (total_of_sequences_kept s) + unat (total_of_sequences_discarded_bellow_minimum s)
      + unat (total_of_sequences_discarded_above_maximum s)
    = length (records (take (position (file_input s)) data))"
proof -
  let ?xs = "take (position (file_input s)) data"
  let ?mn = "unat (sequence_length_minimum ctx)" and ?mx = "unat (sequence_length_maximum ctx)"
  have "length ?xs < 2 ^ 64" using assms(2) by simp
  note small = unat_count_verdict [OF this]
  show ?thesis
    using rw_reach_inv [OF assms] small count_verdict_sum [of ?mn ?mx ?xs]
    by (simp add: rw_inv_def Let_def)
qed

text \<open>C19. The seek target of the copy-back: whenever a record is pending,
  \<open>header_position\<close> is the offset of a \<open>'>'\<close> already read; while its
  sequence line is read, the line starts after a newline at
  \<open>sequence_position\<close>, after the header, and \<open>sequence_position +
  sequence_size\<close> is the cursor, with no wrap-around in the 64-bit words.\<close>

theorem rw_reach_seek_target:
  assumes "rw_reach ctx data fout out s" and "length data < 2 ^ 64" and "state s \<noteq> STATE_NONE"
  shows "unat (header_position s) < position (file_input s) \<and> data ! unat (header_position s) = GT
    \<and> (state s = STATE_SEQUENCE \<longrightarrow>
         unat (header_position s) < unat (sequence_position s)
         \<and> unat (sequence_position s) + unat (sequence_size s) = position (file_input s)
         \<and> data ! (unat (sequence_position s) - 1) = NL)"
proof -
  let ?p = "position (file_input s)"
  let ?xs = "take ?p data"
  have inv: "rw_inv ctx data fout out s" using rw_reach_inv [OF assms(1,2)] .
  then have m: "matches data (run Idle 0 ?xs) s" and le: "?p \<le> length data"
    by (simp_all add: rw_inv_def Let_def)
  have wf: "pending_wf ?xs (run Idle 0 ?xs)" by (rule run_pending_wf)
  have big: "?p < 2 ^ 64" using le assms(2) by simp
  show ?thesis
  proof (cases "run Idle 0 ?xs")
    case Idle
    then show ?thesis using m assms(3) by (simp add: matches_def)
  next
    case (InHeader hp)
    then show ?thesis using m wf le big by (auto simp: matches_def u64_conv)
  next
    case (InSequence hp sp n)
    then show ?thesis using m wf le big by (auto simp: matches_def u64_conv)
  qed
qed

text \<open>C20. Liveness: from every state the loop reaches, it goes on to the end
  of the file, where the output file is the filtered input.\<close>

theorem rw_reach_reaches_end:
  assumes "rw_reach ctx data fout out s" and "length data < 2 ^ 64"
  shows "\<exists>s'. (rw_step ctx)\<^sup>*\<^sup>* s s' \<and> rw_final s' \<and> position (file_input s') = length data
    \<and> file_output s' = fout @ fasta_filter (unat (sequence_length_minimum ctx))
                                (unat (sequence_length_maximum ctx)) data"
proof -
  obtain s' where st: "(rw_step ctx)\<^sup>*\<^sup>* s s'" and fin: "rw_final s'"
    and r': "rw_reach ctx data fout out s'"
    using rw_reach_final [OF assms] by blast
  have inv': "rw_inv ctx data fout out s'" using rw_reach_inv [OF r' assms(2)] .
  have "position (file_input s') = length data" using rw_inv_final [OF inv' fin] .
  with inv' st fin show ?thesis by (auto simp: rw_inv_def Let_def)
qed

end
