(* ===== verification/Cli.thy ===== *)
theory Cli
  imports Engine_Refinement
begin

text \<open>
  \<open>main\<close> of \<^verbatim>\<open>src/main.c\<close> (lines 144--202): argument parsing into
  \<open>struct context\<close>, the help path, opening the two files and the call of
  \<open>read_write_entries\<close>, and the exit status.  The file system is a store
  \<open>fs :: string \<rightharpoonup> byte list\<close> from paths to contents (a path names one
  file: no links, no normalisation of paths); \<open>fopen(path, "r")\<close> fails where
  \<open>fs\<close> has no file, \<open>fopen(path, "w")\<close> fails where \<open>writable\<close> says so and
  otherwise creates or truncates the file.  What else \<open>main\<close> gets from the
  system is a parameter: whether \<open>malloc\<close> succeeds and the libc function
  \<open>atoi\<close>.
\<close>

datatype exit_code = EXIT_SUCCESS | EXIT_FAILURE

record main_result =
  exit_status :: exit_code
  main_stdout :: "stdout_line list"
  files :: "string \<rightharpoonup> byte list"  \<comment> \<open>the file system when \<open>main\<close> returns\<close>

definition PATH_LENGTH_MAX :: nat where "PATH_LENGTH_MAX = 4096"

text \<open>The context after \<open>memset(context, 0, sizeof(struct context))\<close> (line 155).\<close>

definition zero_context :: fasta_context where
  "zero_context = \<lparr>print_help = 0, file_input_path = [], file_output_path = [],
     sequence_length_minimum = 0, sequence_length_maximum = 0, show_progress = 0\<rparr>"

text \<open>Lines 157--165.  \<open>strncat\<close> into the zeroed buffer copies at most
  \<open>PATH_LENGTH_MAX - 1\<close> characters; \<open>atoi\<close>'s \<open>int\<close> is converted to the
  field's unsigned type, that is, reduced modulo \<open>2 ^ 32\<close> or \<open>2 ^ 8\<close>.\<close>

definition parse_arguments :: "(string \<Rightarrow> int) \<Rightarrow> string list \<Rightarrow> fasta_context" where
  "parse_arguments atoi args =
     (if length args = 6
      then zero_context\<lparr>file_input_path := take (PATH_LENGTH_MAX - 1) (args ! 1),
             file_output_path := take (PATH_LENGTH_MAX - 1) (args ! 2),
             sequence_length_minimum := word_of_int (atoi (args ! 3)),
             sequence_length_maximum := word_of_int (atoi (args ! 4)),
             show_progress := word_of_int (atoi (args ! 5))\<rparr>
      else zero_context\<lparr>print_help := 1\<rparr>)"

text \<open>Lines 166--202.  The input stream reads the file when \<open>fread\<close> is
  called, that is in the store \<open>fs1\<close> left by \<open>fopen(output, "w")\<close>, where
  the input still exists (\<open>fopen\<close> only creates or truncates the output);
  when both paths name the same file the engine therefore reads an empty
  file.  At \<open>freecontext\<close> (lines 187--194) \<open>fclose\<close> of the input and
  \<open>free\<close> change nothing observable, and \<open>fclose\<close> of the output leaves in
  it the bytes written.  \<open>None\<close> is a run whose engine never returns.\<close>

definition flfasta_main ::
  "bool \<Rightarrow> (string \<Rightarrow> int) \<Rightarrow> (string \<rightharpoonup> byte list) \<Rightarrow> (string \<Rightarrow> bool)
   \<Rightarrow> string list \<Rightarrow> main_result option" where
  "flfasta_main malloc_ok atoi fs writable args =
     (if \<not> malloc_ok then Some \<lparr>exit_status = EXIT_FAILURE, main_stdout = [], files = fs\<rparr>
      else
        let ctx = parse_arguments atoi args in
        if print_help ctx = 1
        then Some \<lparr>exit_status = EXIT_SUCCESS, main_stdout = [Help_Text], files = fs\<rparr>
        else
          let out = [Show_Input (file_input_path ctx), Show_Output (file_output_path ctx),
                     Show_Minimum (sequence_length_minimum ctx),
                     Show_Maximum (sequence_length_maximum ctx)]
          in case fs (file_input_path ctx) of
               None \<Rightarrow> Some \<lparr>exit_status = EXIT_FAILURE, main_stdout = out @ [Failed_Input],
                             files = fs\<rparr>
             | Some _ \<Rightarrow>
                 (case fopen_write writable fs (file_output_path ctx) of
                    None \<Rightarrow> Some \<lparr>exit_status = EXIT_FAILURE, main_stdout = out @ [Failed_Output],
                                  files = fs\<rparr>
                  | Some fs1 \<Rightarrow>
                      (case read_write_entries ctx (fopen_read (the (fs1 (file_input_path ctx)))) [] out of
                         None \<Rightarrow> None
                       | Some s \<Rightarrow> Some \<lparr>exit_status = EXIT_SUCCESS, main_stdout = stdout s,
                           files = fclose_write fs1 (file_output_path ctx) (file_output s)\<rparr>)))"

subsection \<open>Arguments\<close>

lemma unat_word_of_int_32: "unat (word_of_int k :: u32) = nat (k mod 2 ^ 32)"
  by (simp add: unat_eq_nat_uint uint_word_of_int)

lemma u8_word_of_int_eq_1: "((word_of_int k :: u8) = 1) = (k mod 256 = 1)"
proof -
  have "((word_of_int k :: u8) = 1) = (uint (word_of_int k :: u8) = uint (1 :: u8))"
    by (simp only: word_uint_eq_iff)
  then show ?thesis by (simp add: uint_word_of_int)
qed

lemma parse_arguments_six:
  assumes "length args = 6"
  shows "print_help (parse_arguments atoi args) = 0"
    and "file_input_path (parse_arguments atoi args) = take 4095 (args ! 1)"
    and "file_output_path (parse_arguments atoi args) = take 4095 (args ! 2)"
    and "sequence_length_minimum (parse_arguments atoi args) = word_of_int (atoi (args ! 3))"
    and "sequence_length_maximum (parse_arguments atoi args) = word_of_int (atoi (args ! 4))"
    and "show_progress (parse_arguments atoi args) = word_of_int (atoi (args ! 5))"
  using assms by (simp_all add: parse_arguments_def zero_context_def PATH_LENGTH_MAX_def)

subsection \<open>The process\<close>

text \<open>C14. With any number of arguments other than five, \<open>main\<close> prints the
  help text, touches no file and exits with success.\<close>

theorem flfasta_main_help:
  assumes "length args \<noteq> 6"
  shows "flfasta_main True atoi fs writable args
           = Some \<lparr>exit_status = EXIT_SUCCESS, main_stdout = [Help_Text], files = fs\<rparr>"
  using assms by (simp add: flfasta_main_def fopen_write_def fclose_write_def parse_arguments_def zero_context_def)

lemma flfasta_main_run:
  assumes "length args = 6" and "fs (take 4095 (args ! 1)) = Some d" and "writable (take 4095 (args ! 2))"
    and "take 4095 (args ! 1) = take 4095 (args ! 2) \<or> length d < 2 ^ 64"
  shows "\<exists>r. flfasta_main True atoi fs writable args = Some r
    \<and> exit_status r = EXIT_SUCCESS
    \<and> files r = fs(take 4095 (args ! 2) \<mapsto>
         fasta_filter (nat (atoi (args ! 3) mod 2 ^ 32)) (nat (atoi (args ! 4) mod 2 ^ 32))
           (if take 4095 (args ! 1) = take 4095 (args ! 2) then [] else d))
    \<and> (\<exists>rest. main_stdout r = [Show_Input (take 4095 (args ! 1)), Show_Output (take 4095 (args ! 2)),
         Show_Minimum (word_of_int (atoi (args ! 3))), Show_Maximum (word_of_int (atoi (args ! 4)))] @ rest)"
proof -
  let ?ctx = "parse_arguments atoi args"
  let ?data = "if take 4095 (args ! 1) = take 4095 (args ! 2) then [] else d"
  have p: "print_help ?ctx = 0" "file_input_path ?ctx = take 4095 (args ! 1)"
    "file_output_path ?ctx = take 4095 (args ! 2)"
    "unat (sequence_length_minimum ?ctx) = nat (atoi (args ! 3) mod 2 ^ 32)"
    "unat (sequence_length_maximum ?ctx) = nat (atoi (args ! 4) mod 2 ^ 32)"
    "sequence_length_minimum ?ctx = word_of_int (atoi (args ! 3))"
    "sequence_length_maximum ?ctx = word_of_int (atoi (args ! 4))"
    using parse_arguments_six [OF assms(1), of atoi] by (simp_all add: unat_word_of_int_32)
  let ?out = "[Show_Input (file_input_path ?ctx), Show_Output (file_output_path ?ctx),
       Show_Minimum (sequence_length_minimum ?ctx), Show_Maximum (sequence_length_maximum ?ctx)]"
  have "length ?data < 2 ^ 64" using assms(4) by auto
  then obtain s where "read_write_entries ?ctx (fopen_read ?data) [] ?out = Some s"
    and "file_output s = fasta_filter (unat (sequence_length_minimum ?ctx))
                           (unat (sequence_length_maximum ?ctx)) ?data"
    and "\<exists>rest. stdout s = ?out @ rest"
    using read_write_entries_result [of ?data ?ctx "[]" ?out] by (simp only: append_Nil) blast
  moreover have "the ((fs(take 4095 (args ! 2) \<mapsto> [])) (take 4095 (args ! 1))) = ?data"
    using assms(2) by simp
  ultimately show ?thesis using assms p
    by (simp add: flfasta_main_def fopen_write_def fclose_write_def Let_def del: fun_upd_apply)
qed

text \<open>C12. With five arguments, a readable input and a writable output at a
  different path (both truncated to 4095 characters), \<open>main\<close> exits with
  success and the output file, and only it, changes: it receives the filtered
  input, with the bounds taken from \<open>atoi\<close> modulo \<open>2 ^ 32\<close>.\<close>

theorem flfasta_main_filters:
  assumes "length args = 6"
    and "fs (take 4095 (args ! 1)) = Some data" and "writable (take 4095 (args ! 2))"
    and "take 4095 (args ! 1) \<noteq> take 4095 (args ! 2)" and "length data < 2 ^ 64"
  shows "\<exists>r. flfasta_main True atoi fs writable args = Some r
    \<and> exit_status r = EXIT_SUCCESS
    \<and> files r = fs(take 4095 (args ! 2) \<mapsto>
         fasta_filter (nat (atoi (args ! 3) mod 2 ^ 32)) (nat (atoi (args ! 4) mod 2 ^ 32)) data)"
  using flfasta_main_run [of args fs data writable atoi, OF assms(1-3)] assms(4,5) by auto

text \<open>C15. A negative minimum discards every record.  \<open>atoi\<close>'s \<open>int\<close>
  stored in the \<open>uint32_t\<close> field wraps to at least \<open>2 ^ 31\<close>, above the
  length of any input shorter than that, so the run succeeds and leaves the
  output file empty, where the spec calls the minimum a non-negative integer
  and a reader would expect no lower bound.\<close>

theorem flfasta_main_negative_minimum:
  assumes "length args = 6"
    and "fs (take 4095 (args ! 1)) = Some data" and "writable (take 4095 (args ! 2))"
    and "take 4095 (args ! 1) \<noteq> take 4095 (args ! 2)" and "length data < 2 ^ 31"
    and "- (2 ^ 31) \<le> atoi (args ! 3)" and "atoi (args ! 3) < 0"
  shows "\<exists>r. flfasta_main True atoi fs writable args = Some r
    \<and> exit_status r = EXIT_SUCCESS \<and> files r = fs(take 4095 (args ! 2) \<mapsto> [])"
proof -
  have "atoi (args ! 3) mod 2 ^ 32 = (atoi (args ! 3) + 2 ^ 32) mod 2 ^ 32" by simp
  also have "\<dots> = atoi (args ! 3) + 2 ^ 32" using assms(6,7) by (intro mod_pos_pos_trivial) simp_all
  finally have "int (length data) < atoi (args ! 3) mod 2 ^ 32" using assms(5,6) by simp
  then have "fasta_filter (nat (atoi (args ! 3) mod 2 ^ 32)) mx data = []" for mx
    by (intro fasta_filter_below_all) simp
  moreover have "length data < 2 ^ 64" using assms(5) by simp
  ultimately show ?thesis
    using flfasta_main_run [of args fs data writable atoi, OF assms(1-3)] assms(4) by auto
qed

text \<open>C23. Input and output naming the same file: \<open>fopen(output, "w")\<close>
  truncates the input before the first \<open>fread\<close>, so the run sees an empty
  file, succeeds, and leaves that file empty; the input is lost.  Two
  different arguments that agree in their first 4095 characters name the same
  file after \<open>strncat\<close>.\<close>

theorem flfasta_main_same_file:
  assumes "length args = 6"
    and "fs (take 4095 (args ! 1)) = Some data" and "writable (take 4095 (args ! 2))"
    and "take 4095 (args ! 1) = take 4095 (args ! 2)"
  shows "\<exists>r. flfasta_main True atoi fs writable args = Some r
    \<and> exit_status r = EXIT_SUCCESS \<and> files r = fs(take 4095 (args ! 1) \<mapsto> [])"
proof -
  have "fasta_filter mn mx [] = []" for mn mx by (simp add: fasta_filter_def)
  then show ?thesis
    using flfasta_main_run [of args fs data writable atoi, OF assms(1-3)] assms(4)
    by (auto simp: fasta_filter_def)
qed

text \<open>C13. Exit status: \<open>main\<close> always returns, and it exits with failure
  exactly when the allocation of the context fails, or five arguments were
  given and the input cannot be opened for reading or the output for writing;
  a failed run changes no file.\<close>

theorem flfasta_main_exit_status:
  assumes "\<forall>p d. fs p = Some d \<longrightarrow> length d < 2 ^ 64"
  shows "\<exists>r. flfasta_main malloc_ok atoi fs writable args = Some r
    \<and> (exit_status r = EXIT_FAILURE \<longleftrightarrow>
         \<not> malloc_ok \<or> (length args = 6 \<and> (fs (take 4095 (args ! 1)) = None
                                            \<or> \<not> writable (take 4095 (args ! 2)))))
    \<and> (exit_status r = EXIT_FAILURE \<longrightarrow> files r = fs)"
proof (cases "malloc_ok \<and> length args = 6")
  case False
  then show ?thesis
    by (auto simp: flfasta_main_def fopen_write_def fclose_write_def parse_arguments_def zero_context_def)
next
  case True
  let ?ctx = "parse_arguments atoi args"
  have p: "print_help ?ctx = 0" "file_input_path ?ctx = take 4095 (args ! 1)"
    "file_output_path ?ctx = take 4095 (args ! 2)"
    using parse_arguments_six [of args atoi] True by auto
  show ?thesis
  proof (cases "fs (take 4095 (args ! 1))")
    case None
    with True p show ?thesis by (simp add: flfasta_main_def fopen_write_def fclose_write_def Let_def)
  next
    case (Some d)
    show ?thesis
    proof (cases "writable (take 4095 (args ! 2))")
      case False
      with True p Some show ?thesis by (simp add: flfasta_main_def fopen_write_def fclose_write_def Let_def)
    next
      case w: True
      have "length d < 2 ^ 64" using assms Some by blast
      with True Some w show ?thesis using flfasta_main_run [of args fs d writable atoi] by auto
    qed
  qed
qed

end
