(* ===== verification/Format.thy ===== *)
theory Format
  imports Prelude
begin

text \<open>
  The text conversions of the C library that \<^verbatim>\<open>src/main.c\<close> uses, modelled
  from the C standard: \<open>printf\<close>'s \<open>%u\<close>/\<open>%lu\<close> (\<open>decimal\<close>) and its
  zero-padded form \<open>%0Nu\<close> (\<open>zero_pad\<close>), \<open>puts\<close>, and \<open>atoi\<close>, which skips
  leading white space, reads an optional sign and then decimal digits up to
  the first non-digit.  \<open>atoi\<close>'s result is the mathematical value; C leaves
  it undefined when that value does not fit an \<open>int\<close>, and the theorems that
  use it stay below \<open>2 ^ 31\<close>.
\<close>

definition digit_char :: "nat \<Rightarrow> char" where
  "digit_char d = ''0123456789'' ! d"

fun decimal :: "nat \<Rightarrow> string" where
  "decimal n = (if n < 10 then [digit_char n] else decimal (n div 10) @ [digit_char (n mod 10)])"

declare decimal.simps [simp del]

definition zero_pad :: "nat \<Rightarrow> string \<Rightarrow> string" where
  "zero_pad w s = replicate (w - length s) (CHR ''0'') @ s"

definition puts_text :: "string \<Rightarrow> string" where
  "puts_text s = s @ ''\<newline>''"

definition is_digit :: "char \<Rightarrow> bool" where
  "is_digit c \<longleftrightarrow> (48 :: nat) \<le> of_char c \<and> of_char c \<le> (57 :: nat)"

definition is_space :: "char \<Rightarrow> bool" where
  "is_space c \<longleftrightarrow> of_char c = (32 :: nat) \<or> ((9 :: nat) \<le> of_char c \<and> of_char c \<le> (13 :: nat))"

fun digits_value :: "int \<Rightarrow> string \<Rightarrow> int" where
  "digits_value acc [] = acc"
| "digits_value acc (c # cs) =
     (if is_digit c then digits_value (10 * acc + (int (of_char c) - 48)) cs else acc)"

definition c_atoi :: "string \<Rightarrow> int" where
  "c_atoi s =
     (case dropWhile is_space s of
        c # r \<Rightarrow> if c = CHR ''-'' then - digits_value 0 r
                 else if c = CHR ''+'' then digits_value 0 r
                 else digits_value 0 (c # r)
      | [] \<Rightarrow> 0)"

subsection \<open>Decimal digits\<close>

lemma of_char_digit_char: "d < 10 \<Longrightarrow> (of_char (digit_char d) :: nat) = 48 + d"
proof -
  assume "d < 10"
  then have "d \<in> {0, 1, 2, 3, 4, 5, 6, 7, 8, 9}" by auto
  then show ?thesis by (auto simp: digit_char_def)
qed

lemma digit_char_is_digit: "d < 10 \<Longrightarrow> is_digit (digit_char d)"
  by (simp add: is_digit_def of_char_digit_char)

lemma decimal_digits: "list_all is_digit (decimal n)"
proof (induction n rule: decimal.induct)
  case (1 n)
  then show ?case by (subst decimal.simps) (simp add: digit_char_is_digit)
qed

lemma decimal_not_space: "c \<in> set (decimal n) \<Longrightarrow> \<not> is_space c \<and> c \<noteq> CHR ''-'' \<and> c \<noteq> CHR ''+''"
  using decimal_digits [of n] by (auto simp: list_all_iff is_digit_def is_space_def)

lemma digits_value_append:
  "list_all is_digit xs \<Longrightarrow> digits_value acc (xs @ ys) = digits_value (digits_value acc xs) ys"
  by (induction xs arbitrary: acc) auto

lemma digits_value_decimal: "digits_value acc (decimal n) = acc * 10 ^ length (decimal n) + int n"
proof (induction n arbitrary: acc rule: decimal.induct)
  case (1 n)
  show ?case
  proof (cases "n < 10")
    case True
    then show ?thesis
      by (subst (1 2) decimal.simps) (simp add: digit_char_is_digit of_char_digit_char)
  next
    case False
    have "digits_value acc (decimal n)
        = digits_value (digits_value acc (decimal (n div 10))) [digit_char (n mod 10)]"
      using False decimal_digits [of "n div 10"]
      by (subst decimal.simps) (simp add: digits_value_append)
    also have "\<dots> = 10 * (acc * 10 ^ length (decimal (n div 10)) + int (n div 10)) + int (n mod 10)"
      using "1.IH" [OF False] by (simp add: digit_char_is_digit of_char_digit_char)
    also have "\<dots> = acc * 10 ^ length (decimal n) + int n"
    proof -
      have "length (decimal n) = Suc (length (decimal (n div 10)))"
        using False by (subst decimal.simps) simp
      moreover have "int n = 10 * int (n div 10) + int (n mod 10)" by presburger
      ultimately show ?thesis by (simp add: algebra_simps)
    qed
    finally show ?thesis .
  qed
qed

subsection \<open>\<open>atoi\<close> reads back what \<open>%u\<close> prints\<close>

lemma decimal_Cons: "\<exists>c r. decimal n = c # r"
proof -
  have "decimal n \<noteq> []" by (subst decimal.simps) simp
  then show ?thesis by (simp add: neq_Nil_conv)
qed

lemma c_atoi_decimal: "c_atoi (decimal n) = int n"
proof -
  obtain c r where d: "decimal n = c # r" using decimal_Cons by blast
  then have "\<not> is_space c" "c \<noteq> CHR ''-''" "c \<noteq> CHR ''+''" using decimal_not_space [of c n] by auto
  then show ?thesis using digits_value_decimal [of 0 n] d by (simp add: c_atoi_def)
qed

end
