(* ===== verification/Stdout_Text.thy ===== *)
theory Stdout_Text
  imports Cli Format
begin

text \<open>
  What the program prints, as text: the version macros (lines 26--29),
  \<open>print_help\<close> (lines 123--142) and the format strings of the \<open>printf\<close> and
  \<open>puts\<close> calls of \<open>read_write_entries\<close> and \<open>main\<close>, one \<open>render_line\<close>
  case per \<open>stdout_line\<close>.  The \<open>%0.2f\<close> rendering of the progress
  percentage, a \<open>double\<close> computed from the position and the size, is the
  parameter \<open>pct\<close>; \<open>Progress_Percent\<close> defines it as \<open>progress_pct\<close>.
\<close>

definition APPLICATION_VERSION_YYYY :: nat where "APPLICATION_VERSION_YYYY = 2019"
definition APPLICATION_VERSION_MM :: nat where "APPLICATION_VERSION_MM = 1"   \<comment> \<open>the octal literal \<open>01\<close>\<close>
definition APPLICATION_VERSION_DD :: nat where "APPLICATION_VERSION_DD = 24"
definition APPLICATION_VERSION_MICRO :: nat where "APPLICATION_VERSION_MICRO = 0"

abbreviation DQ :: char where "DQ \<equiv> CHR 0x22"   \<comment> \<open>the double quote\<close>
abbreviation CR :: char where "CR \<equiv> CHR 0x0D"   \<comment> \<open>\<open>'\r'\<close>\<close>

text \<open>\<open>print_help\<close> (lines 123--142); the name \<open>print_help\<close> is the field of
  \<open>struct context\<close>.\<close>

definition print_help_text :: string where
  "print_help_text =
     ''flfasta (Filter by Length FASTA) version ''
       @ zero_pad 4 (decimal APPLICATION_VERSION_YYYY) @ ''.''
       @ zero_pad 2 (decimal APPLICATION_VERSION_MM) @ ''.''
       @ zero_pad 2 (decimal APPLICATION_VERSION_DD) @ ''.''
       @ decimal APPLICATION_VERSION_MICRO @ ''.\<newline>''
     @ puts_text ''Created by Felipe Ferreira da Silva.''
     @ puts_text ''''
     @ puts_text ''Usage:''
     @ puts_text ''  sc [1] [2] [3] [4] [5]''
     @ puts_text ''''
     @ puts_text ''  1: Path to input file.''
     @ puts_text ''  2: Path to output file.''
     @ puts_text ''  3: Minimum length.''
     @ puts_text ''  4: Maximum length (0 to ignore maximum length).''
     @ puts_text ''  5: Show progress (0 for no, 1 for yes).''
     @ puts_text ''''
     @ puts_text ''File input must be in single-line FASTA format.''"

text \<open>The text of each line: line 110 (progress), 115, 118--120 (totals, \<open>%lu\<close>
  of a \<open>uint64_t\<close>), the help text, 170--173 (\<open>%s\<close> of the paths, \<open>%u\<close> of the
  \<open>uint32_t\<close> bounds), 176 and 182.\<close>

fun render_line :: "(u64 \<Rightarrow> u64 \<Rightarrow> string) \<Rightarrow> stdout_line \<Rightarrow> string" where
  "render_line pct (Progress fp fs) = CR # ''Filtering by length at '' @ pct fp fs @ ''%.''"
| "render_line pct Progress_End = ''\<newline>''"
| "render_line pct (Total_Kept n) = ''Total of sequences kept: '' @ decimal (unat n) @ ''.\<newline>''"
| "render_line pct (Total_Bellow n) =
     ''Total of sequences discarded bellow minimum: '' @ decimal (unat n) @ ''.\<newline>''"
| "render_line pct (Total_Above n) =
     ''Total of sequences discarded above maximum: '' @ decimal (unat n) @ ''.\<newline>''"
| "render_line pct Help_Text = print_help_text"
| "render_line pct (Show_Input p) = ''  Input: '' @ [DQ] @ p @ [DQ] @ ''\<newline>''"
| "render_line pct (Show_Output p) = ''  Output: '' @ [DQ] @ p @ [DQ] @ ''\<newline>''"
| "render_line pct (Show_Minimum m) = ''  Sequence minimum length: '' @ decimal (unat m) @ ''\<newline>''"
| "render_line pct (Show_Maximum m) = ''  Sequence maximum length: '' @ decimal (unat m) @ ''\<newline>''"
| "render_line pct Failed_Input = puts_text ''Failed to open the input file for reading.''"
| "render_line pct Failed_Output = puts_text ''Failed to open the output file for writing.''"

definition stdout_text :: "(u64 \<Rightarrow> u64 \<Rightarrow> string) \<Rightarrow> stdout_line list \<Rightarrow> string" where
  "stdout_text pct ls = concat (map (render_line pct) ls)"

lemma progress_line_off: "show_progress ctx \<noteq> 1 \<Longrightarrow> progress_line ctx fs q = []"
  by (simp add: progress_line_def)

lemma stdout_text_append [simp]: "stdout_text pct (xs @ ys) = stdout_text pct xs @ stdout_text pct ys"
  by (simp add: stdout_text_def)

lemma stdout_text_simps [simp]:
  "stdout_text pct [] = []" "stdout_text pct (x # xs) = render_line pct x @ stdout_text pct xs"
  by (simp_all add: stdout_text_def)

subsection \<open>Properties of the printed text\<close>

text \<open>C21. Round trip through the command line: bounds given as the decimal
  text of numbers below \<open>2 ^ 31\<close> are the bounds \<open>main\<close> filters with, and
  \<open>main\<close> echoes them, after the two paths, as the very text given.\<close>

theorem flfasta_main_echoes_bounds:
  assumes "length args = 6"
    and "fs (take 4095 (args ! 1)) = Some data" and "writable (take 4095 (args ! 2))"
    and "take 4095 (args ! 1) \<noteq> take 4095 (args ! 2)" and "length data < 2 ^ 64"
    and "args ! 3 = decimal m" and "args ! 4 = decimal M" and "m < 2 ^ 31" and "M < 2 ^ 31"
  shows "\<exists>r. flfasta_main True c_atoi fs writable args = Some r
    \<and> files r = fs(take 4095 (args ! 2) \<mapsto> fasta_filter m M data)
    \<and> (\<exists>rest. stdout_text pct (main_stdout r) =
        ''  Input: '' @ [DQ] @ take 4095 (args ! 1) @ [DQ] @ ''\<newline>''
        @ ''  Output: '' @ [DQ] @ take 4095 (args ! 2) @ [DQ] @ ''\<newline>''
        @ ''  Sequence minimum length: '' @ args ! 3 @ ''\<newline>''
        @ ''  Sequence maximum length: '' @ args ! 4 @ ''\<newline>'' @ rest)"
proof -
  have m: "nat (c_atoi (args ! 3) mod 2 ^ 32) = m" "nat (c_atoi (args ! 4) mod 2 ^ 32) = M"
    using assms(6-9) by (simp_all add: c_atoi_decimal)
  then have u: "unat (word_of_int (c_atoi (args ! 3)) :: u32) = m"
    "unat (word_of_int (c_atoi (args ! 4)) :: u32) = M"
    by (simp_all add: unat_word_of_int_32)
  obtain r rest where "flfasta_main True c_atoi fs writable args = Some r"
    and "files r = fs(take 4095 (args ! 2) \<mapsto> fasta_filter m M data)"
    and "main_stdout r = [Show_Input (take 4095 (args ! 1)), Show_Output (take 4095 (args ! 2)),
         Show_Minimum (word_of_int (c_atoi (args ! 3))), Show_Maximum (word_of_int (c_atoi (args ! 4)))]
         @ rest"
    using flfasta_main_run [of args fs data writable c_atoi, OF assms(1-3)] assms(4,5) m by auto
  then show ?thesis using u assms(6,7) by auto
qed

text \<open>C22. The standard output of a run without progress reporting: the echo
  of the parameters (paths truncated to 4095 characters, bounds as
  \<open>atoi\<close> modulo \<open>2 ^ 32\<close>), then the three totals of the contract in decimal.\<close>

theorem flfasta_main_stdout_text:
  assumes "length args = 6"
    and "fs (take 4095 (args ! 1)) = Some data" and "writable (take 4095 (args ! 2))"
    and "take 4095 (args ! 1) \<noteq> take 4095 (args ! 2)"
    and "length data < 2 ^ 64" and "c_atoi (args ! 5) mod 256 \<noteq> 1"
  shows "\<exists>r. flfasta_main True c_atoi fs writable args = Some r
    \<and> stdout_text pct (main_stdout r) =
      ''  Input: '' @ [DQ] @ take 4095 (args ! 1) @ [DQ] @ ''\<newline>''
      @ ''  Output: '' @ [DQ] @ take 4095 (args ! 2) @ [DQ] @ ''\<newline>''
      @ ''  Sequence minimum length: '' @ decimal (nat (c_atoi (args ! 3) mod 2 ^ 32)) @ ''\<newline>''
      @ ''  Sequence maximum length: '' @ decimal (nat (c_atoi (args ! 4) mod 2 ^ 32)) @ ''\<newline>''
      @ ''Total of sequences kept: ''
      @ decimal (count_verdict Kept (nat (c_atoi (args ! 3) mod 2 ^ 32))
                   (nat (c_atoi (args ! 4) mod 2 ^ 32)) data) @ ''.\<newline>''
      @ ''Total of sequences discarded bellow minimum: ''
      @ decimal (count_verdict Below (nat (c_atoi (args ! 3) mod 2 ^ 32))
                   (nat (c_atoi (args ! 4) mod 2 ^ 32)) data) @ ''.\<newline>''
      @ ''Total of sequences discarded above maximum: ''
      @ decimal (count_verdict Above (nat (c_atoi (args ! 3) mod 2 ^ 32))
                   (nat (c_atoi (args ! 4) mod 2 ^ 32)) data) @ ''.\<newline>''"
proof -
  let ?ctx = "parse_arguments c_atoi args"
  let ?mn = "unat (sequence_length_minimum ?ctx)" and ?mx = "unat (sequence_length_maximum ?ctx)"
  have p: "print_help ?ctx = 0" "file_input_path ?ctx = take 4095 (args ! 1)"
    "file_output_path ?ctx = take 4095 (args ! 2)"
    "?mn = nat (c_atoi (args ! 3) mod 2 ^ 32)" "?mx = nat (c_atoi (args ! 4) mod 2 ^ 32)"
    "show_progress ?ctx \<noteq> 1"
    using parse_arguments_six [OF assms(1), of c_atoi] assms(6)
    by (simp_all add: unat_word_of_int_32 u8_word_of_int_eq_1)
  let ?out = "[Show_Input (file_input_path ?ctx), Show_Output (file_output_path ?ctx),
       Show_Minimum (sequence_length_minimum ?ctx), Show_Maximum (sequence_length_maximum ?ctx)]"
  obtain s where rw: "read_write_entries ?ctx (fopen_read data) [] ?out = Some s"
    and k: "total_of_sequences_kept s = word_of_nat (count_verdict Kept ?mn ?mx data)"
    and b: "total_of_sequences_discarded_bellow_minimum s = word_of_nat (count_verdict Below ?mn ?mx data)"
    and a: "total_of_sequences_discarded_above_maximum s = word_of_nat (count_verdict Above ?mn ?mx data)"
    and o: "stdout s = ?out @ concat (map (progress_line ?ctx (word_of_nat (length data))) [1..<Suc (length data)])
        @ (if show_progress ?ctx = 1 then [Progress_End] else [])
        @ [Total_Kept (total_of_sequences_kept s),
           Total_Bellow (total_of_sequences_discarded_bellow_minimum s),
           Total_Above (total_of_sequences_discarded_above_maximum s)]"
    using read_write_entries_result [OF assms(5), of ?ctx "[]" ?out] by blast
  have none: "concat (map (progress_line ?ctx (word_of_nat (length data))) [1..<Suc (length data)]) = []"
    using p(6) by (simp add: progress_line_off)
  have o': "stdout s = ?out @ [Total_Kept (total_of_sequences_kept s),
           Total_Bellow (total_of_sequences_discarded_bellow_minimum s),
           Total_Above (total_of_sequences_discarded_above_maximum s)]"
    using o none p(6) by (simp only: append.simps append_Nil if_False)
  show ?thesis
    using assms(1-4) p rw k b a o'
    by (simp add: flfasta_main_def fopen_write_def fclose_write_def Let_def unat_count_verdict [OF assms(5)])
qed

end
