(* ===== verification/Progress_Percent.thy ===== *)
theory Progress_Percent
  imports Stdout_Text Complex_Main "HOL-Library.Code_Target_Numeral"
begin

text \<open>
  The percentage of the progress line (line 110):
  \<open>((double)file_position / (double)file_size) * 100.0\<close> printed with
  \<open>%0.2f\<close>.  A \<open>double\<close> is IEEE-754 binary64 with a 53-bit significand, and
  each of the two conversions, the division and the multiplication rounds its
  exact result to the nearest representable value, ties to the even
  significand (the default rounding mode).  \<open>dbl_round\<close> is that rounding on
  rationals in the normal range, which holds every value the percentage takes
  (from \<open>2 ^ -64\<close> to \<open>100\<close>); \<open>%0.2f\<close> prints the exact value of the double
  rounded to hundredths, ties to even.  The theorems: the percentage at the
  last byte, its bounds at every position, its monotonicity along a run
  (\<open>progress_values\<close> reads the printed values off the lines of a run), and
  a report before the end that already prints \<open>100.00\<close>.
\<close>

subsection \<open>Rounding to an integer, ties to even\<close>

definition round_even :: "rat \<Rightarrow> int" where
  "round_even x =
     (let f = \<lfloor>x\<rfloor>; d = x - of_int f
      in if d < 1 / 2 then f else if 1 / 2 < d then f + 1 else if even f then f else f + 1)"

lemma round_even_cases:
  "round_even x = \<lfloor>x\<rfloor> \<or> round_even x = \<lfloor>x\<rfloor> + 1"
  by (auto simp: round_even_def Let_def)

lemma round_even_of_int [simp]: "round_even (of_int k) = k"
  by (simp add: round_even_def)

lemma round_even_numeral [simp]: "round_even (numeral n) = numeral n"
  using round_even_of_int [of "numeral n"] by simp

lemma round_even_mono:
  assumes "x \<le> y" shows "round_even x \<le> round_even y"
proof (cases "\<lfloor>x\<rfloor> = \<lfloor>y\<rfloor>")
  case True
  with assms show ?thesis by (auto simp: round_even_def Let_def)
next
  case False
  then have "\<lfloor>x\<rfloor> + 1 \<le> \<lfloor>y\<rfloor>" using floor_mono [OF assms] by simp
  then show ?thesis using round_even_cases [of x] round_even_cases [of y] by auto
qed

lemma round_even_le: "x \<le> of_int k \<Longrightarrow> round_even x \<le> k"
  using round_even_mono [of x "of_int k"] by simp

lemma round_even_ge: "of_int k \<le> x \<Longrightarrow> k \<le> round_even x"
  using round_even_mono [of "of_int k" x] by simp

text \<open>\<open>round_even\<close> meets the IEEE specification of rounding to an integer:
  no integer is closer, and of two equally close ones it is the even one.\<close>

lemma round_even_closest:
  "\<bar>x - of_int (round_even x)\<bar> \<le> \<bar>x - of_int k\<bar>
   \<and> (\<bar>x - of_int (round_even x)\<bar> = 1 / 2 \<longrightarrow> even (round_even x))"
proof -
  let ?f = "\<lfloor>x\<rfloor>"
  have f: "of_int ?f \<le> x" "x < of_int ?f + 1" by linarith+
  have k: "\<bar>x - of_int k\<bar> \<ge> min (x - of_int ?f) (of_int ?f + 1 - x)"
  proof (cases "k \<le> ?f")
    case True
    then have "(of_int k :: rat) \<le> of_int ?f" by simp
    then show ?thesis using f by linarith
  next
    case False
    then have "(of_int ?f + 1 :: rat) \<le> of_int k" by linarith
    then show ?thesis using f by linarith
  qed
  show ?thesis
    using k f by (auto simp: round_even_def Let_def)
qed

lemma round_even_half: "\<bar>x - of_int (round_even x)\<bar> \<le> 1 / 2"
proof -
  have "of_int \<lfloor>x\<rfloor> \<le> x" "x < of_int \<lfloor>x\<rfloor> + 1" by linarith+
  then show ?thesis by (auto simp: round_even_def Let_def abs_le_iff)
qed

lemma round_even_above: "of_int k - 1 / 2 < x \<Longrightarrow> k \<le> round_even x"
proof -
  assume "of_int k - 1 / 2 < x"
  moreover have "x - of_int (round_even x) \<le> 1 / 2 \<and> - (x - of_int (round_even x)) \<le> 1 / 2"
    using round_even_half [of x] by (simp only: abs_le_iff)
  ultimately have "of_int (k - 1) < (of_int (round_even x) :: rat)" by simp
  then show ?thesis by simp
qed

subsection \<open>The binade of a positive rational\<close>

text \<open>\<open>binade x\<close> is the exponent \<open>e\<close> with \<open>2 ^ e \<le> x < 2 ^ (e + 1)\<close>,
  computed from the bit lengths of the numerator and the denominator.\<close>

text \<open>The number of binary digits of a natural number.\<close>

fun bit_length :: "nat \<Rightarrow> nat" where
  "bit_length n = (if n = 0 then 0 else Suc (bit_length (n div 2)))"

declare bit_length.simps [simp del]

lemma bit_length_bounds: "0 < n \<Longrightarrow> 2 ^ (bit_length n - 1) \<le> n \<and> n < 2 ^ bit_length n"
proof (induction n rule: bit_length.induct)
  case (1 n)
  show ?case
  proof (cases "n div 2 = 0")
    case True
    then have "n = 1" using "1.prems" by auto
    then show ?thesis by (simp add: bit_length.simps)
  next
    case False
    then have IH: "2 ^ (bit_length (n div 2) - 1) \<le> n div 2 \<and> n div 2 < 2 ^ bit_length (n div 2)"
      using "1.IH" "1.prems" by simp
    have b: "bit_length n = Suc (bit_length (n div 2))" using "1.prems" by (simp add: bit_length.simps)
    have pos: "0 < bit_length (n div 2)" using False by (simp add: bit_length.simps)
    have "(2 :: nat) ^ (bit_length n - 1) = 2 * 2 ^ (bit_length (n div 2) - 1)"
      using b pos by (simp add: power_Suc [symmetric])
    moreover have "(2 :: nat) ^ bit_length n = 2 * 2 ^ bit_length (n div 2)" using b by simp
    moreover have "2 * (n div 2) \<le> n" "n < 2 * (n div 2) + 2" by auto
    ultimately show ?thesis using IH by linarith
  qed
qed

definition binade :: "rat \<Rightarrow> int" where
  "binade x =
     (case quotient_of x of (p, q) \<Rightarrow>
        let e = int (bit_length (nat p)) - int (bit_length (nat q))
        in if 2 powi e \<le> x then e else e - 1)"

lemma pow2_powi_mono: "a \<le> b \<Longrightarrow> (2 :: rat) powi a \<le> 2 powi b"
  by (rule power_int_increasing) simp_all

lemma pow2_powi_pos [simp]: "(0 :: rat) < 2 powi e"
  by simp

lemma pow2_powi_succ: "(2 :: rat) powi (e + 1) = 2 * 2 powi e"
  by (simp add: power_int_add)

lemma pow2_powi_nat_diff: "(2 :: rat) powi (int m - int n) = 2 ^ m / 2 ^ n"
  by (simp add: power_int_diff)

lemma binade_bounds:
  assumes "0 < x"
  shows "2 powi binade x \<le> x \<and> x < 2 powi (binade x + 1)"
proof -
  obtain p q where pq: "quotient_of x = (p, q)" by (cases "quotient_of x")
  have q: "0 < q" using quotient_of_denom_pos [OF pq] .
  have x: "x = of_int p / of_int q" using quotient_of_div [OF pq] .
  then have p: "0 < p" using assms q by (simp add: zero_less_divide_iff)
  define a where "a = nat p"
  define b where "b = nat q"
  have a0: "0 < a" and b0: "0 < b" using p q by (simp_all add: a_def b_def)
  have xab: "x = of_nat a / of_nat b" using x p q by (simp add: a_def b_def)
  define la where "la = bit_length a"
  define lb where "lb = bit_length b"
  have ba: "2 ^ (la - 1) \<le> a" "a < 2 ^ la" using bit_length_bounds [OF a0] by (simp_all add: la_def)
  have bb: "2 ^ (lb - 1) \<le> b" "b < 2 ^ lb" using bit_length_bounds [OF b0] by (simp_all add: lb_def)
  have la1: "1 \<le> la" using a0 by (simp add: la_def bit_length.simps)
  have lb1: "1 \<le> lb" using b0 by (simp add: lb_def bit_length.simps)
  define e where "e = int la - int lb"
  have lo: "2 powi (e - 1) < x"
  proof -
    have "(2 :: nat) ^ (la - 1) * b \<le> a * b" using ba(1) by (rule mult_le_mono1)
    moreover have "a * b < a * 2 ^ lb" using bb(2) a0 by simp
    ultimately have "(2 :: nat) ^ (la - 1) * b < a * 2 ^ lb" by linarith
    then have "(2 :: rat) ^ (la - 1) * of_nat b < of_nat a * 2 ^ lb"
      using of_nat_less_iff [where 'a = rat, THEN iffD2] by fastforce
    moreover have "e - 1 = int (la - 1) - int lb" using la1 by (simp add: e_def)
    ultimately show ?thesis using b0 by (simp add: xab pow2_powi_nat_diff divide_simps)
  qed
  have hi: "x < 2 powi (e + 1)"
  proof -
    have "a * 2 ^ (lb - 1) < (2 :: nat) ^ la * 2 ^ (lb - 1)" using ba(2) by simp
    moreover have "(2 :: nat) ^ la * 2 ^ (lb - 1) \<le> 2 ^ la * b" using bb(1) by simp
    ultimately have "a * 2 ^ (lb - 1) < (2 :: nat) ^ la * b" by linarith
    then have "of_nat a * (2 :: rat) ^ (lb - 1) < 2 ^ la * of_nat b"
      using of_nat_less_iff [where 'a = rat, THEN iffD2] by fastforce
    moreover have "e + 1 = int la - int (lb - 1)" using lb1 by (simp add: e_def)
    ultimately show ?thesis using b0 by (simp add: xab pow2_powi_nat_diff divide_simps)
  qed
  have bin: "binade x = (if 2 powi e \<le> x then e else e - 1)"
    using pq by (simp add: binade_def e_def a_def b_def la_def lb_def Let_def)
  show ?thesis
  proof (cases "2 powi e \<le> x")
    case True
    then show ?thesis using bin hi by simp
  next
    case False
    then show ?thesis using bin lo by simp
  qed
qed

lemma binade_eqI:
  assumes "2 powi e \<le> x" and "x < 2 powi (e + 1)"
  shows "binade x = e"
proof -
  have x: "0 < x" using assms(1) pow2_powi_pos [of e] by linarith
  note b = binade_bounds [OF x]
  show ?thesis
  proof (rule ccontr)
    assume "binade x \<noteq> e"
    then consider "binade x + 1 \<le> e" | "e + 1 \<le> binade x" by linarith
    then show False
    proof cases
      case 1
      then show False using pow2_powi_mono [OF 1] b assms by linarith
    next
      case 2
      then show False using pow2_powi_mono [OF 2] b assms by linarith
    qed
  qed
qed

subsection \<open>Rounding to binary64\<close>

text \<open>A positive \<open>x\<close> in the binade \<open>e\<close> is rounded to a multiple of
  \<open>2 ^ (e - 52)\<close>: the scaled value \<open>x * 2 ^ (52 - e)\<close> lies in
  \<open>[2 ^ 52, 2 ^ 53)\<close> and is rounded to an integer, ties to even.\<close>

definition dbl_round_pos :: "rat \<Rightarrow> rat" where
  "dbl_round_pos x = (let s = 2 powi (52 - binade x) in of_int (round_even (x * s)) / s)"

definition dbl_round :: "rat \<Rightarrow> rat" where
  "dbl_round x = (if x = 0 then 0 else if 0 < x then dbl_round_pos x else - dbl_round_pos (- x))"

lemma pow2_scale:
  "(2 :: rat) powi e * 2 powi (52 - e) = 2 ^ 52"
  "(2 :: rat) powi (e + 1) * 2 powi (52 - e) = 2 ^ 53"
proof -
  have "(2 :: rat) powi (e + (52 - e)) = 2 powi e * 2 powi (52 - e)" by (rule power_int_add) simp
  then show "(2 :: rat) powi e * 2 powi (52 - e) = 2 ^ 52" by simp
  have "(2 :: rat) powi (e + 1 + (52 - e)) = 2 powi (e + 1) * 2 powi (52 - e)" by (rule power_int_add) simp
  then show "(2 :: rat) powi (e + 1) * 2 powi (52 - e) = 2 ^ 53" by simp
qed

lemma dbl_round_pos_bounds:
  assumes "0 < x"
  shows "2 powi binade x \<le> dbl_round_pos x \<and> dbl_round_pos x \<le> 2 powi (binade x + 1)"
proof -
  let ?e = "binade x" and ?s = "(2 :: rat) powi (52 - binade x)"
  have b: "2 powi ?e \<le> x" "x < 2 powi (?e + 1)" using binade_bounds [OF assms] by simp_all
  have s: "0 < ?s" by simp
  have "of_int (2 ^ 52) \<le> x * ?s" using b(1) s pow2_scale(1) [of ?e]
    by (metis mult_right_mono less_imp_le of_int_numeral of_int_power)
  then have lo: "2 ^ 52 \<le> round_even (x * ?s)" by (rule round_even_ge)
  have "x * ?s \<le> of_int (2 ^ 53)" using b(2) s pow2_scale(2) [of ?e]
    by (metis mult_right_mono less_imp_le of_int_numeral of_int_power)
  then have hi: "round_even (x * ?s) \<le> 2 ^ 53" by (rule round_even_le)
  have "2 powi ?e = (2 ^ 52) / ?s" and "2 powi (?e + 1) = (2 ^ 53) / ?s"
    using pow2_scale [of ?e] s by (simp_all add: eq_divide_eq)
  moreover have "(2 ^ 52 :: rat) \<le> of_int (round_even (x * ?s))"
    and "of_int (round_even (x * ?s)) \<le> (2 ^ 53 :: rat)"
    using lo hi by (metis of_int_le_iff of_int_numeral of_int_power)+
  ultimately show ?thesis using s
    by (simp add: dbl_round_pos_def Let_def divide_right_mono)
qed

lemma dbl_round_pos_pos: "0 < x \<Longrightarrow> 0 < dbl_round_pos x"
  using dbl_round_pos_bounds [of x] pow2_powi_pos [of "binade x"] by linarith

lemma dbl_round_pos_le_repr:
  assumes "0 < x" and "x \<le> y" and "y * 2 powi (52 - binade x) = of_int k"
  shows "dbl_round_pos x \<le> y"
proof -
  let ?s = "(2 :: rat) powi (52 - binade x)"
  have "x * ?s \<le> of_int k" using assms(2,3) by (metis mult_right_mono less_imp_le pow2_powi_pos)
  then have "of_int (round_even (x * ?s)) \<le> (of_int k :: rat)" by (simp add: round_even_le)
  then show ?thesis using assms(3) by (simp add: dbl_round_pos_def Let_def divide_le_eq)
qed

lemma dbl_round_pos_exact:
  assumes "x * 2 powi (52 - binade x) = of_int k"
  shows "dbl_round_pos x = x"
proof -
  have "x = of_int k / 2 powi (52 - binade x)" using assms by (simp add: eq_divide_eq)
  then show ?thesis using assms by (simp add: dbl_round_pos_def Let_def)
qed

lemma dbl_round_pos_mono:
  assumes "0 < x" and "x \<le> y"
  shows "dbl_round_pos x \<le> dbl_round_pos y"
proof -
  have y: "0 < y" using assms by linarith
  note bnx = binade_bounds [OF assms(1)] and bny = binade_bounds [OF y]
  note rx = dbl_round_pos_bounds [OF assms(1)] and ry = dbl_round_pos_bounds [OF y]
  consider "binade x = binade y" | "binade x < binade y" | "binade y < binade x" by linarith
  then show ?thesis
  proof cases
    case 1
    then show ?thesis using assms
      by (simp add: dbl_round_pos_def Let_def divide_right_mono round_even_mono mult_right_mono)
  next
    case 2
    then have "2 powi (binade x + 1) \<le> (2 :: rat) powi binade y" by (simp add: pow2_powi_mono)
    then show ?thesis using rx ry by linarith
  next
    case 3
    then have "2 powi (binade y + 1) \<le> (2 :: rat) powi binade x" by (simp add: pow2_powi_mono)
    then show ?thesis using bnx bny assms by linarith
  qed
qed

lemma dbl_round_pos_mono_pos:
  "0 < x \<Longrightarrow> x \<le> y \<Longrightarrow> dbl_round x \<le> dbl_round y"
  using dbl_round_pos_mono [of x y] by (simp add: dbl_round_def)

lemma dbl_round_gt_0: "0 < x \<Longrightarrow> 0 < dbl_round x"
  by (simp add: dbl_round_def dbl_round_pos_pos)

lemma dbl_round_one [simp]: "dbl_round 1 = 1"
proof -
  have "binade 1 = 0" by (rule binade_eqI) simp_all
  then have "(1 :: rat) * 2 powi (52 - binade 1) = of_int (2 ^ 52)" by simp
  then show ?thesis by (simp add: dbl_round_def dbl_round_pos_exact)
qed

lemma dbl_round_100 [simp]: "dbl_round 100 = 100"
proof -
  have "binade 100 = 6" by (rule binade_eqI) simp_all
  then have "(100 :: rat) * 2 powi (52 - binade 100) = of_int (100 * 2 ^ 46)" by simp
  then show ?thesis by (simp add: dbl_round_def dbl_round_pos_exact)
qed

text \<open>The relative error of the rounding is at most \<open>2 ^ -53\<close>: the
  rounded value is within half a unit of the last of 53 places.\<close>

lemma dbl_round_pos_error:
  assumes "0 < x"
  shows "\<bar>dbl_round_pos x - x\<bar> \<le> x / 2 ^ 53"
proof -
  let ?e = "binade x" and ?s = "(2 :: rat) powi (52 - binade x)"
  let ?r = "of_int (round_even (x * ?s)) :: rat"
  have s: "0 < ?s" by simp
  have "dbl_round_pos x - x = (?r - x * ?s) / ?s"
    using s by (simp add: dbl_round_pos_def Let_def diff_divide_distrib)
  then have "\<bar>dbl_round_pos x - x\<bar> = \<bar>x * ?s - ?r\<bar> / ?s"
    using s by (simp add: abs_minus_commute)
  also have "\<dots> \<le> (1 / 2) / ?s"
    using round_even_half [of "x * ?s"] s by (intro divide_right_mono) simp_all
  also have "\<dots> = 2 powi ?e / 2 ^ 53"
    using pow2_scale(1) [of ?e] s by (simp add: field_simps)
  also have "\<dots> \<le> x / 2 ^ 53"
    using binade_bounds [OF assms] by (simp add: divide_right_mono)
  finally show ?thesis .
qed

lemma dbl_round_rel:
  assumes "0 < x"
  shows "x * (1 - 1 / 2 ^ 53) \<le> dbl_round x \<and> dbl_round x \<le> x * (1 + 1 / 2 ^ 53)"
proof -
  have "\<bar>dbl_round_pos x - x\<bar> \<le> x / 2 ^ 53" by (rule dbl_round_pos_error [OF assms])
  then have "dbl_round_pos x - x \<le> x / 2 ^ 53" "- (dbl_round_pos x - x) \<le> x / 2 ^ 53"
    by (simp_all only: abs_le_iff)
  then have lo: "x - x / 2 ^ 53 \<le> dbl_round_pos x" and hi: "dbl_round_pos x \<le> x + x / 2 ^ 53"
    by linarith+
  have "x * (1 - 1 / 2 ^ 53) = x - x / 2 ^ 53" "x * (1 + 1 / 2 ^ 53) = x + x / 2 ^ 53"
    and "dbl_round x = dbl_round_pos x"
    using assms by (simp_all add: algebra_simps dbl_round_def)
  then show ?thesis using lo hi by (simp only:)
qed

lemma rel_factors:
  "1 - 4 / 2 ^ 53 \<le> (1 - 1 / 2 ^ 53) ^ 3 / (1 + 1 / (2 :: rat) ^ 53)"
  "(1 + 1 / 2 ^ 53) ^ 3 / (1 - 1 / (2 :: rat) ^ 53) \<le> 1 + 5 / 2 ^ 53"
  by (simp_all add: power_divide)

subsection \<open>The percentage of line 110\<close>

text \<open>\<open>(double)\<close> of a \<open>uint64_t\<close>: exact below \<open>2 ^ 53\<close>, rounded above.\<close>

definition double_of_u64 :: "u64 \<Rightarrow> rat" where
  "double_of_u64 w = dbl_round (of_nat (unat w))"

text \<open>\<open>((double)file_position / (double)file_size) * 100.0\<close>.\<close>

definition progress_value :: "u64 \<Rightarrow> u64 \<Rightarrow> rat" where
  "progress_value fp fs = dbl_round (dbl_round (double_of_u64 fp / double_of_u64 fs) * 100)"

text \<open>\<open>%0.2f\<close> of a non-negative double: its exact value rounded to
  hundredths (ties to even), the integer part in decimal, a point and two
  digits.\<close>

definition fmt_2f :: "rat \<Rightarrow> string" where
  "fmt_2f v =
     (let r = nat (round_even (v * 100))
      in decimal (r div 100) @ ''.'' @ [digit_char (r mod 100 div 10), digit_char (r mod 10)])"

text \<open>The text printed for the percentage.  A zero file size, for which no
  progress line is ever printed (theorem
  \<open>read_write_entries_progress_bounds\<close>), gives \<open>0.0 / 0.0\<close>, printed by
  glibc as \<open>-nan\<close>, or a positive number over zero, printed as \<open>inf\<close>.\<close>

definition progress_pct :: "u64 \<Rightarrow> u64 \<Rightarrow> string" where
  "progress_pct fp fs =
     (if fs = 0 then (if fp = 0 then ''-nan'' else ''inf'') else fmt_2f (progress_value fp fs))"

text \<open>The percentage the spec asks for, \<open>position / size * 100\<close>, exactly.\<close>

definition exact_percent :: "u64 \<Rightarrow> u64 \<Rightarrow> rat" where
  "exact_percent fp fs = 100 * of_nat (unat fp) / of_nat (unat fs)"

lemma double_of_u64_pos: "0 < w \<Longrightarrow> 0 < double_of_u64 w"
  unfolding double_of_u64_def by (rule dbl_round_gt_0) (simp only: of_nat_0_less_iff unat_gt_0)

lemma double_of_u64_mono: "0 < w \<Longrightarrow> w \<le> w' \<Longrightarrow> double_of_u64 w \<le> double_of_u64 w'"
  unfolding double_of_u64_def
  by (rule dbl_round_pos_mono_pos) (simp_all only: of_nat_0_less_iff unat_gt_0 of_nat_le_iff word_le_nat_alt [symmetric])

lemma double_of_u64_rel:
  assumes "0 < w"
  shows "of_nat (unat w) * (1 - 1 / 2 ^ 53) \<le> double_of_u64 w
    \<and> double_of_u64 w \<le> of_nat (unat w) * (1 + 1 / 2 ^ 53)"
  unfolding double_of_u64_def
  by (rule dbl_round_rel) (metis assms of_nat_0_less_iff unat_gt_0 word_neq_0_conv)

lemma progress_value_rel:
  assumes "0 < fp" and "fp \<le> fs"
  shows "exact_percent fp fs * (1 - 4 / 2 ^ 53) \<le> progress_value fp fs
    \<and> progress_value fp fs \<le> exact_percent fp fs * (1 + 5 / 2 ^ 53)"
proof -
  define u where "u = (1 :: rat) / 2 ^ 53"
  let ?x = "of_nat (unat fp) :: rat" and ?y = "of_nat (unat fs) :: rat"
  let ?a = "double_of_u64 fp" and ?b = "double_of_u64 fs"
  let ?q = "?a / ?b" and ?v = "progress_value fp fs"
  let ?c = "dbl_round ?q"
  have fs: "0 < fs" using assms by (metis order_less_le_trans)
  have y: "0 < ?y" using fs by (simp only: of_nat_0_less_iff unat_gt_0)
  have u: "0 < u" "u < 1" by (simp_all add: u_def)
  have a: "?x * (1 - u) \<le> ?a" "?a \<le> ?x * (1 + u)"
    using double_of_u64_rel [OF assms(1)] by (simp_all add: u_def)
  have b: "?y * (1 - u) \<le> ?b" "?b \<le> ?y * (1 + u)"
    using double_of_u64_rel [OF fs] by (simp_all add: u_def)
  have a0: "0 < ?a" "0 < ?b" using double_of_u64_pos assms(1) fs by blast+
  have ql: "?x * (1 - u) / (?y * (1 + u)) \<le> ?q"
    using a(1) a0 b(2) by (intro frac_le) simp_all
  have qu: "?q \<le> ?x * (1 + u) / (?y * (1 - u))"
    using a(2) a0 b(1) y u by (intro frac_le) simp_all
  have q0: "0 < ?q" using a0 by simp
  have c: "?q * (1 - u) \<le> ?c" "?c \<le> ?q * (1 + u)"
    using dbl_round_rel [OF q0] by (simp_all add: u_def)
  have c0: "0 < ?c * 100" using dbl_round_gt_0 [OF q0] by simp
  have v: "?c * 100 * (1 - u) \<le> ?v" "?v \<le> ?c * 100 * (1 + u)"
    using dbl_round_rel [OF c0] by (simp_all add: progress_value_def u_def)
  have t: "exact_percent fp fs = 100 * ?x / ?y" by (simp add: exact_percent_def)
  have e0: "0 \<le> exact_percent fp fs" unfolding exact_percent_def
    by (intro divide_nonneg_nonneg mult_nonneg_nonneg) (simp_all only: of_nat_0_le_iff zero_le_numeral)
  have "exact_percent fp fs * ((1 - u) ^ 3 / (1 + u))
      = ?x * (1 - u) / (?y * (1 + u)) * (1 - u) * 100 * (1 - u)"
    using y u by (simp add: t field_simps power3_eq_cube)
  also have "\<dots> \<le> ?q * (1 - u) * 100 * (1 - u)" using ql u by (intro mult_right_mono) simp_all
  also have "\<dots> \<le> ?c * 100 * (1 - u)" using c(1) u by (intro mult_right_mono) simp_all
  also have "\<dots> \<le> ?v" by (rule v(1))
  finally have lo: "exact_percent fp fs * ((1 - u) ^ 3 / (1 + u)) \<le> ?v" .
  have "?v \<le> ?c * 100 * (1 + u)" by (rule v(2))
  also have "\<dots> \<le> ?q * (1 + u) * 100 * (1 + u)" using c(2) u by (intro mult_right_mono) simp_all
  also have "\<dots> \<le> ?x * (1 + u) / (?y * (1 - u)) * (1 + u) * 100 * (1 + u)"
    using qu u by (intro mult_right_mono) simp_all
  also have "\<dots> = exact_percent fp fs * ((1 + u) ^ 3 / (1 - u))"
    using y u by (simp add: t field_simps power3_eq_cube)
  finally have hi: "?v \<le> exact_percent fp fs * ((1 + u) ^ 3 / (1 - u))" .
  have "exact_percent fp fs * (1 - 4 / 2 ^ 53) \<le> exact_percent fp fs * ((1 - u) ^ 3 / (1 + u))"
    using rel_factors(1) e0 by (intro mult_left_mono) (simp_all add: u_def)
  moreover have "exact_percent fp fs * ((1 + u) ^ 3 / (1 - u)) \<le> exact_percent fp fs * (1 + 5 / 2 ^ 53)"
    using rel_factors(2) e0 by (intro mult_left_mono) (simp_all add: u_def)
  ultimately show ?thesis using lo hi by linarith
qed

subsection \<open>Properties of the percentage\<close>

lemma progress_value_same: "0 < fs \<Longrightarrow> progress_value fs fs = 100"
  using double_of_u64_pos [of fs] by (simp add: progress_value_def)

lemma fmt_2f_10000: "round_even (v * 100) = 10000 \<Longrightarrow> fmt_2f v = ''100.00''"
proof -
  assume "round_even (v * 100) = 10000"
  moreover have "decimal 100 = ''100''" by (simp add: decimal.simps digit_char_def)
  ultimately show ?thesis by (simp add: fmt_2f_def digit_char_def)
qed

lemma fmt_2f_100: "fmt_2f 100 = ''100.00''"
  by (rule fmt_2f_10000) simp

lemma progress_value_mono:
  assumes "0 < fp" and "fp \<le> fp'" and "fp' \<le> fs"
  shows "progress_value fp fs \<le> progress_value fp' fs"
proof -
  let ?q = "double_of_u64 fp / double_of_u64 fs" and ?q' = "double_of_u64 fp' / double_of_u64 fs"
  have fs: "0 < fs" using assms by (metis order_less_le_trans)
  have d: "0 < double_of_u64 fp" "0 < double_of_u64 fs"
    using double_of_u64_pos assms(1) fs by blast+
  have le: "double_of_u64 fp \<le> double_of_u64 fp'" using double_of_u64_mono assms(1,2) by blast
  have q: "0 < ?q" "?q \<le> ?q'" using d le by (simp_all add: divide_right_mono)
  have r: "0 < dbl_round ?q" "dbl_round ?q \<le> dbl_round ?q'"
    using dbl_round_gt_0 [OF q(1)] dbl_round_pos_mono_pos [OF q] by simp_all
  then show ?thesis
    using dbl_round_pos_mono_pos [of "dbl_round ?q * 100" "dbl_round ?q' * 100"]
    by (simp add: progress_value_def)
qed

lemma progress_value_range:
  assumes "0 < fp" and "fp \<le> fs"
  shows "0 < progress_value fp fs \<and> progress_value fp fs \<le> 100"
proof -
  have fs: "0 < fs" using assms by (metis order_less_le_trans)
  have "0 < dbl_round (double_of_u64 fp / double_of_u64 fs)"
    using double_of_u64_pos assms(1) fs by (simp add: dbl_round_gt_0)
  then have "0 < progress_value fp fs" by (simp add: progress_value_def dbl_round_gt_0)
  moreover have "progress_value fp fs \<le> 100"
    using progress_value_mono [OF assms(1,2) order_refl] progress_value_same [OF fs] by simp
  ultimately show ?thesis ..
qed

lemma exact_percent_le_100:
  assumes "0 < fp" and "fp \<le> fs"
  shows "0 < exact_percent fp fs \<and> exact_percent fp fs \<le> 100"
proof -
  have fs: "0 < fs" using assms by (metis order_less_le_trans)
  have x: "(0 :: rat) < of_nat (unat fp)" and y: "(0 :: rat) < of_nat (unat fs)"
    by (metis assms(1) of_nat_0_less_iff unat_gt_0 word_neq_0_conv,
        metis fs of_nat_0_less_iff unat_gt_0 word_neq_0_conv)
  have "(of_nat (unat fp) :: rat) \<le> of_nat (unat fs)"
    using assms(2) by (simp only: of_nat_le_iff word_le_nat_alt [symmetric])
  then show ?thesis using x y by (simp add: exact_percent_def divide_le_eq)
qed

lemma progress_hundredths_le:
  "0 < fp \<Longrightarrow> fp \<le> fs \<Longrightarrow> round_even (progress_value fp fs * 100) \<le> 10000"
  using progress_value_range [of fp fs] round_even_mono [of "progress_value fp fs * 100" "of_int 10000"]
  by simp

text \<open>The percentages a list of printed lines shows, in order.\<close>

fun progress_values :: "stdout_line list \<Rightarrow> rat list" where
  "progress_values [] = []"
| "progress_values (Progress fp fs # ls) = progress_value fp fs # progress_values ls"
| "progress_values (_ # ls) = progress_values ls"

lemma progress_values_append [simp]:
  "progress_values (xs @ ys) = progress_values xs @ progress_values ys"
  by (induction xs rule: progress_values.induct) simp_all

lemma progress_values_lines:
  assumes "L < 2 ^ 64" and "\<forall>q \<in> set qs. q \<le> L"
  shows "progress_values (concat (map (progress_line ctx (word_of_nat L)) qs))
    = map (\<lambda>q. progress_value (word_of_nat q) (word_of_nat L))
          (filter (\<lambda>q. show_progress ctx = 1 \<and> (q mod 100 = 0 \<or> q = L)) qs)"
  using assms
proof (induction qs)
  case (Cons q qs)
  then show ?case
    by (cases "show_progress ctx = 1")
       (simp_all add: progress_line_on_file, simp add: progress_line_def)
qed simp

text \<open>C25. Accuracy of the printed percentage: for every position between
  1 and the file size, the progress line prints a number of hundredths
  \<open>r\<close> (as \<open>%0.2f\<close> writes it: \<open>r div 100\<close>, a point, two digits) that is
  within \<open>0.01\<close> of the exact \<open>position / size * 100\<close> the spec asks for,
  whatever the four roundings to double do.\<close>

theorem progress_pct_accuracy:
  assumes "0 < fp" and "fp \<le> fs"
  shows "\<exists>r. progress_pct fp fs = decimal (r div 100) @ ''.'' @ [digit_char (r mod 100 div 10), digit_char (r mod 10)]
    \<and> \<bar>of_nat r / 100 - exact_percent fp fs\<bar> \<le> 1 / 100"
proof -
  let ?v = "progress_value fp fs" and ?e = "exact_percent fp fs"
  let ?k = "round_even (?v * 100)"
  have fs: "fs \<noteq> 0" using assms by auto
  have e: "0 < ?e" "?e \<le> 100" using exact_percent_le_100 [OF assms] by simp_all
  have rel: "?e * (1 - 4 / 2 ^ 53) \<le> ?v" "?v \<le> ?e * (1 + 5 / 2 ^ 53)"
    using progress_value_rel [OF assms] by simp_all
  have "?v - ?e \<le> ?e * 5 / 2 ^ 53" "?e - ?v \<le> ?e * 4 / 2 ^ 53"
    using rel by (simp_all add: algebra_simps)
  moreover have "?e * 5 / 2 ^ 53 \<le> 500 / 2 ^ 53" "?e * 4 / 2 ^ 53 \<le> 400 / 2 ^ 53"
    using e by (simp_all add: divide_right_mono)
  ultimately have ve: "\<bar>?v - ?e\<bar> \<le> 500 / 2 ^ 53" unfolding abs_le_iff by (intro conjI) linarith+
  note h = round_even_half [of "?v * 100", unfolded abs_le_iff]
  have kv: "\<bar>of_int ?k / 100 - ?v\<bar> \<le> 1 / 200"
    unfolding abs_le_iff using h by (intro conjI) linarith+
  have k0: "0 \<le> ?k"
    using progress_value_range [OF assms] by (intro round_even_ge) simp
  have "\<bar>of_int ?k / 100 - ?e\<bar> \<le> 1 / 200 + 500 / 2 ^ 53"
    using kv [unfolded abs_le_iff] ve [unfolded abs_le_iff] unfolding abs_le_iff
    by (intro conjI) linarith+
  then have "\<bar>of_nat (nat ?k) / 100 - ?e\<bar> \<le> 1 / 100" using k0 by simp
  moreover have "progress_pct fp fs = decimal (nat ?k div 100) @ ''.''
      @ [digit_char (nat ?k mod 100 div 10), digit_char (nat ?k mod 10)]"
    using fs by (simp add: progress_pct_def fmt_2f_def Let_def)
  ultimately show ?thesis by blast
qed

text \<open>C26. Whenever the position is between 1 and the file size (as on every
  progress line, C24), the double computed is positive and at most
  \<open>100.0\<close>, and the hundredths \<open>%0.2f\<close> prints are at most \<open>10000\<close>: the line
  never shows more than \<open>100.00%\<close>, even where the conversions to double
  round.\<close>

theorem progress_value_bounds:
  assumes "0 < fp" and "fp \<le> fs"
  shows "0 < progress_value fp fs \<and> progress_value fp fs \<le> 100
    \<and> round_even (progress_value fp fs * 100) \<le> 10000"
  using progress_value_range [OF assms] progress_hundredths_le [OF assms] by simp

text \<open>C27. With progress reporting on and a non-empty input, the text the
  run prints ends with the report of the last byte, \<open>\rFiltering by length
  at 100.00%.\<close>, the line break of line 115 and the three totals.\<close>

theorem read_write_entries_progress_text:
  assumes "length data < 2 ^ 64" and "0 < length data" and "show_progress ctx = 1"
  shows "\<exists>s pre. read_write_entries ctx (fopen_read data) [] [] = Some s
    \<and> stdout_text progress_pct (stdout s) =
        pre @ CR # ''Filtering by length at 100.00%.\<newline>''
        @ stdout_text progress_pct [Total_Kept (total_of_sequences_kept s),
             Total_Bellow (total_of_sequences_discarded_bellow_minimum s),
             Total_Above (total_of_sequences_discarded_above_maximum s)]"
proof -
  let ?L = "length data"
  let ?fs = "word_of_nat ?L :: u64"
  obtain s where r: "read_write_entries ctx (fopen_read data) [] [] = Some s"
    and o: "stdout s = concat (map (progress_line ctx ?fs) [1..<Suc ?L])
        @ (if show_progress ctx = 1 then [Progress_End] else [])
        @ [Total_Kept (total_of_sequences_kept s),
           Total_Bellow (total_of_sequences_discarded_bellow_minimum s),
           Total_Above (total_of_sequences_discarded_above_maximum s)]"
    using read_write_entries_result [OF assms(1), of ctx "[]" "[]"] by auto
  have last: "progress_line ctx ?fs ?L = [Progress ?fs ?fs]"
    using progress_line_on_file [OF assms(3) order_refl assms(1)] by simp
  have up: "[Suc 0..<Suc ?L] = [Suc 0..<?L] @ [?L]" using assms(2) by (simp add: Suc_leI)
  have fs: "0 < ?fs" using assms(1,2) of_nat_less_u64 [of 0 ?L] by simp
  have pct: "progress_pct ?fs ?fs = ''100.00''"
    using fs by (simp add: progress_pct_def progress_value_same fmt_2f_100)
  show ?thesis
    using r o last pct assms(3)
    by (intro exI [of _ s] exI [of _ "stdout_text progress_pct (concat (map (progress_line ctx ?fs) [Suc 0..<?L]))"])
       (simp add: up del: upt_Suc)
qed

text \<open>C28. On every input, the percentages a run prints never go backwards
  and stay within \<open>(0, 100]\<close>: every rounding on the way from the position
  to the double (the two casts, the division, the product) is monotone, so the
  progress lines rise as the position does, although several positions can
  print the same double.\<close>

theorem read_write_entries_progress_monotone:
  assumes "length data < 2 ^ 64"
  shows "\<exists>s. read_write_entries ctx (fopen_read data) [] [] = Some s
    \<and> sorted (progress_values (stdout s)) \<and> set (progress_values (stdout s)) \<subseteq> {0<..100}"
proof -
  let ?L = "length data"
  let ?f = "\<lambda>q. progress_value (word_of_nat q) (word_of_nat ?L :: u64)"
  let ?P = "\<lambda>q. show_progress ctx = 1 \<and> (q mod 100 = 0 \<or> q = ?L)"
  obtain s where r: "read_write_entries ctx (fopen_read data) [] [] = Some s"
    and o: "stdout s = concat (map (progress_line ctx (word_of_nat ?L)) [1..<Suc ?L])
        @ (if show_progress ctx = 1 then [Progress_End] else [])
        @ [Total_Kept (total_of_sequences_kept s),
           Total_Bellow (total_of_sequences_discarded_bellow_minimum s),
           Total_Above (total_of_sequences_discarded_above_maximum s)]"
    using read_write_entries_result [OF assms, of ctx "[]" "[]"] by auto
  have "\<forall>q \<in> set [1..<Suc ?L]. q \<le> ?L" by auto
  from progress_values_lines [OF assms this, of ctx]
  have pv: "progress_values (stdout s) = map ?f (filter ?P [1..<Suc ?L])"
    using o by (simp del: upt_Suc)
  have w: "0 < (word_of_nat q :: u64) \<and> (word_of_nat q :: u64) \<le> word_of_nat q'"
    if "1 \<le> q" "q \<le> q'" "q' \<le> ?L" for q q'
    using that assms of_nat_less_u64 [of 0 q] of_nat_le_u64 [of q q'] by simp
  have "sorted_wrt (\<lambda>q q'. ?f q \<le> ?f q') [1..<Suc ?L]"
  proof (rule sorted_wrt_mono_rel [OF _ sorted_wrt_upt [of 1 "Suc ?L"]])
    fix q q' assume "q \<in> set [1..<Suc ?L]" "q' \<in> set [1..<Suc ?L]" "q < q'"
    then have "1 \<le> q" "q \<le> q'" "q' \<le> ?L" "1 \<le> q'" by auto
    then show "?f q \<le> ?f q'"
      using w [of q q'] w [of q' ?L] by (intro progress_value_mono) simp_all
  qed
  then have "sorted (map ?f (filter ?P [1..<Suc ?L]))"
    by (simp add: sorted_map sorted_wrt_filter)
  moreover have "set (map ?f (filter ?P [1..<Suc ?L])) \<subseteq> {0<..100}"
  proof
    fix v assume "v \<in> set (map ?f (filter ?P [1..<Suc ?L]))"
    then obtain q where "v = ?f q" "1 \<le> q" "q \<le> ?L" by auto
    then show "v \<in> {0<..100}"
      using progress_value_range [of "word_of_nat q" "word_of_nat ?L"] w [of q ?L] by simp
  qed
  ultimately have "sorted (progress_values (stdout s))
      \<and> set (progress_values (stdout s)) \<subseteq> {0<..100}"
    by (simp only: pv)
  with r show ?thesis by blast
qed

text \<open>C29. The progress line reads \<open>100.00%\<close> before the input is read to
  its end: on every input of at least 10000000 bytes, the report at the
  last multiple of \<open>PROGRESS_DIVISOR\<close> before the end, up to 100 bytes
  before it, already prints \<open>100.00\<close>, because \<open>%0.2f\<close> rounds a ratio above
  \<open>0.99995\<close> up.\<close>

theorem read_write_entries_100_before_end:
  assumes "10000000 \<le> length data" and "length data < 2 ^ 64" and "show_progress ctx = 1"
  shows "\<exists>s fp. read_write_entries ctx (fopen_read data) [] [] = Some s \<and> fp < length data
    \<and> Progress (word_of_nat fp) (word_of_nat (length data)) \<in> set (stdout s)
    \<and> progress_pct (word_of_nat fp) (word_of_nat (length data)) = ''100.00''"
proof -
  let ?L = "length data"
  define fp where "fp = (?L - 1) div 100 * 100"
  have split: "fp + (?L - 1) mod 100 = ?L - 1" by (simp add: fp_def)
  have "(?L - 1) mod 100 < 100" by simp
  then have f: "fp < ?L" "?L \<le> fp + 100" "0 < fp" using split assms(1) by linarith+
  have m: "fp mod 100 = 0" by (simp add: fp_def)
  let ?fp = "word_of_nat fp :: u64" and ?fs = "word_of_nat ?L :: u64"
  have w: "0 < ?fp" "?fp \<le> ?fs" "unat ?fp = fp" "unat ?fs = ?L"
    using f assms(2) of_nat_less_u64 [of 0 fp] of_nat_le_u64 [of fp ?L] by (simp_all add: u64_conv)
  have "of_nat ?L \<le> of_nat fp + (100 :: rat)" "10000000 \<le> (of_nat ?L :: rat)"
    using f(2) assms(1) by (simp_all only: of_nat_add [symmetric] of_nat_numeral of_nat_le_iff)
  then have "100 * of_nat ?L - of_nat ?L / 1000 \<le> 100 * (of_nat fp :: rat)" by linarith
  then have "(100 - 1 / 1000) * of_nat ?L \<le> 100 * (of_nat fp :: rat)" by (simp add: algebra_simps)
  moreover have "(0 :: rat) < of_nat ?L" using f(1) by (simp only: of_nat_0_less_iff)
  ultimately have e: "100 - 1 / 1000 \<le> exact_percent ?fp ?fs"
    by (simp add: exact_percent_def w pos_le_divide_eq)
  have "(100 - 1 / 1000) * (1 - 4 / 2 ^ 53) \<le> exact_percent ?fp ?fs * (1 - 4 / (2 :: rat) ^ 53)"
    using e by (intro mult_right_mono) simp_all
  also have "\<dots> \<le> progress_value ?fp ?fs" using progress_value_rel [OF w(1,2)] by simp
  finally have "of_int 10000 - 1 / 2 < progress_value ?fp ?fs * 100" by simp
  then have "10000 \<le> round_even (progress_value ?fp ?fs * 100)" by (rule round_even_above)
  then have "round_even (progress_value ?fp ?fs * 100) = 10000"
    using progress_hundredths_le [OF w(1,2)] by simp
  then have pct: "progress_pct ?fp ?fs = ''100.00''"
    using w(1,2) by (auto simp: progress_pct_def fmt_2f_10000)
  obtain s where r: "read_write_entries ctx (fopen_read data) [] [] = Some s"
    and o: "stdout s = concat (map (progress_line ctx ?fs) [1..<Suc ?L])
        @ (if show_progress ctx = 1 then [Progress_End] else [])
        @ [Total_Kept (total_of_sequences_kept s),
           Total_Bellow (total_of_sequences_discarded_bellow_minimum s),
           Total_Above (total_of_sequences_discarded_above_maximum s)]"
    using read_write_entries_result [OF assms(2), of ctx "[]" "[]"] by auto
  have "progress_line ctx ?fs fp = [Progress ?fp ?fs]"
    using progress_line_on_file [OF assms(3) less_imp_le [OF f(1)] assms(2)] m by simp
  moreover have "fp \<in> set [1..<Suc ?L]" using f by simp
  ultimately have "Progress ?fp ?fs \<in> set (stdout s)" using o by (force simp del: upt_Suc)
  with r f(1) pct show ?thesis by blast
qed

end
