(* ===== verification/Spec2Isabelle.thy ===== *)
theory Spec2Isabelle
  imports Engine_Steps Progress_Percent
begin

text \<open>
  \<^bold>\<open>flfasta: a verification of the single-line FASTA length filter.\<close>

  \<^emph>\<open>The program.\<close> \<^verbatim>\<open>src/main.c\<close> is one C file.  \<open>main\<close> (lines 144--202)
  parses five positional arguments into \<open>struct context\<close>, opens the input and
  the output file and calls \<open>read_write_entries\<close> (lines 49--121), the engine:
  a byte-level state machine (\<open>STATE_NONE\<close>, \<open>STATE_HEADER\<close>,
  \<open>STATE_SEQUENCE\<close>) that reads the input once, one \<open>fread\<close> per byte, and at
  the end of every sequence line classifies the record by the length of that
  line.  A kept record is not buffered: the engine seeks the input back to the
  record's \<open>'>'\<close> and copies bytes to the output until the cursor is back at
  the end of the sequence line, where the forward scan resumes.  \<open>print_help\<close>
  (lines 123--142) prints the usage text.

  \<^emph>\<open>The theories.\<close>
  \<^item> \<open>Prelude\<close>: the C integer types as words, the bytes \<open>'\n'\<close> and \<open>'>'\<close>,
    conversions between \<open>nat\<close> and \<open>64 word\<close> (collection \<open>u64_conv\<close>) and
    byte-list slices.
  \<^item> \<open>Stdio\<close>: the stdio calls the engine makes (\<open>fread\<close>, \<open>fgetc\<close>,
    \<open>fputc\<close>, \<open>ftell\<close>, \<open>fseek\<close>) on an in-memory file with a cursor, and
    \<open>fopen\<close>/\<open>fclose\<close> of the output on a file store (\<open>fopen_write\<close>
    truncates, \<open>fclose_write\<close> commits the bytes written); library code,
    modelled from its documented behaviour.
  \<^item> \<open>Format\<close>: \<open>printf\<close>'s \<open>%u\<close> and \<open>%0Nu\<close> (\<open>decimal\<close>, \<open>zero_pad\<close>),
    \<open>puts\<close> and \<open>atoi\<close> (\<open>c_atoi\<close>), from the C standard, with the round trip
    \<open>c_atoi (decimal n) = n\<close>.
  \<^item> \<open>Engine\<close>: \<open>read_write_entries\<close> statement by statement.  Its locals are
    the record \<open>rw_state\<close> at their C widths (\<open>uint64_t\<close> counters and offsets
    as \<open>64 word\<close>, the \<open>uint32_t\<close> bounds as \<open>32 word\<close>); the two loops are
    \<^theory_text>\<open>partial_function (option)\<close> definitions \<open>read_loop\<close> (lines 73--113) and
    \<open>copy_record\<close> (lines 100--102), so that a loop that never ends is
    \<open>None\<close>; the loop body is split as the C code is: \<open>loop_body\<close> (line
    counting), \<open>scan_byte\<close> (the state machine), \<open>end_of_sequence\<close> (the
    classification and the seek-and-copy), \<open>report_progress\<close>.
  \<^item> \<open>Record_Spec\<close>: the contract of spec sections 4.1 and 8, on records:
    \<open>records\<close> cuts a byte list into its complete records, \<open>verdict\<close>
    classifies a length, \<open>fasta_filter\<close> is the promised output.
  \<^item> \<open>Scanner\<close>: the pure transition function of spec section 9 (\<open>trans\<close>,
    over pending states with nat offsets), its run \<open>scan\<close> and the pending
    state \<open>run\<close> reaches; theorem \<open>scan_records\<close> shows that it finds exactly
    the complete records.
  \<^item> \<open>Engine_Refinement\<close>: the simulation of \<open>Scanner\<close> by \<open>Engine\<close>.  The
    relation \<open>matches\<close> ties the C state to a pending state; each iteration of
    the \<open>fread\<close> loop is one \<open>trans\<close> step (\<open>loop_body_sim\<close>), the seek-back
    copy of a kept record appends exactly the record's bytes and returns the
    cursor to where the scan left it (\<open>end_of_sequence_sim\<close>), and the whole
    loop terminates with the output and the totals of the scan
    (\<open>read_loop_sim\<close>, by induction on the bytes left).
  \<^item> \<open>Engine_Steps\<close>: the \<open>fread\<close> loop as an inductive step relation
    \<open>rw_step\<close> (one turn, executable by \<^theory_text>\<open>code_pred\<close>) and its reachable
    states \<open>rw_reach\<close> from \<open>init_state\<close>; \<open>read_loop\<close> computes the final
    state of the relation; the invariant \<open>rw_inv\<close> (parser state, output,
    totals, line counter and progress lines are those of the bytes read so
    far) is inductive, and every reachable state leads to the end of the file.
  \<^item> \<open>Cli\<close>: \<open>main\<close> (lines 144--202) as \<open>flfasta_main\<close>: \<open>parse_arguments\<close>
    (the argument count, \<open>strncat\<close> of the paths into 4096-byte buffers,
    \<open>atoi\<close> converted to \<open>uint32_t\<close> and \<open>uint8_t\<close>), the help path, the two
    \<open>fopen\<close> failures and the exit status, over a file system that is a store
    \<open>string \<rightharpoonup> byte list\<close>: \<open>fopen(path, "w")\<close> creates or truncates the
    file before the input is read, and \<open>freecontext\<close>'s \<open>fclose\<close> of the
    output stores what the engine wrote.  \<open>malloc\<close>'s success and \<open>atoi\<close> are
    parameters.
  \<^item> \<open>Stdout_Text\<close>: the version macros, \<open>print_help\<close> as its text, and
    \<open>render_line\<close>, the format string of every \<open>printf\<close>/\<open>puts\<close> of the
    program applied to a \<open>stdout_line\<close>.
  \<^item> \<open>Progress_Percent\<close>: the percentage of line 110,
    \<open>((double)file_position / (double)file_size) * 100.0\<close> printed with
    \<open>%0.2f\<close>, as \<open>progress_pct\<close>.  IEEE-754 binary64 with rounding to
    nearest, ties to even, is computed on exact rationals: \<open>binade\<close> finds
    the exponent, \<open>dbl_round\<close> rounds to a 53-bit significand, and each of
    the two casts, the division and the product is rounded once, as the C
    expression is evaluated; \<open>fmt_2f\<close> rounds the exact value of the double
    to hundredths.  The rounding is monotone and its relative error is at
    most \<open>2 ^ -53\<close> (\<open>dbl_round_rel\<close>), so the double lies within a factor
    \<open>1 \<plusminus> 5 * 2 ^ -53\<close> of the exact \<open>exact_percent\<close>
    (\<open>progress_value_rel\<close>).  The definitions are executable (with
    \<open>Code_Target_Numeral\<close>), e.g. one third prints \<open>33.33\<close>.
  \<^item> this theory: the end-to-end properties of \<open>read_write_entries\<close> against
    \<open>Record_Spec\<close>, two kinds of input outside the format, and the witnesses
    of every property with a hypothesis.

  \<^emph>\<open>The properties.\<close>  C1 refinement of the contract by the engine; C2/C3 the
  classification at the end of a sequence line, with the seek-and-copy
  transparent to the scan (C2) and the discard paths (C3); C4 termination of
  the read loop; C5 idempotence; C6 the totals without wrap-around; C7 the
  unbounded maximum; C8 progress reporting; C9 the copy loop never returns
  when its limit lies past the end of the file; C10 whatever precedes the
  first \<open>'>'\<close> is skipped and C11 bytes after the last newline are ignored
  (spec scenario 4); C12--C15 \<open>main\<close>: the output file, the exit status, the
  help path, and a negative minimum, which wraps and empties the output;
  C16--C20 the loop as a step relation: the inductive invariant (C16),
  streaming safety of the output (C17), the invariant of spec section 4.1 on
  the totals (C18), the seek target is the pending record's \<open>'>'\<close> (C19) and
  liveness (C20); C21/C22 the text \<open>main\<close> prints: the bounds it filters with
  and echoes are the decimal arguments given (C21), and the whole standard
  output of a run (C22); C23 an output naming the input empties it; C24 the
  progress lines never divide by zero nor exceed the size; C25--C29 the
  percentage as printed: within 0.01 of the exact percentage (C25), never
  above \<open>100.00\<close> (C26), \<open>100.00\<close> on the line of the last byte (C27), never
  going backwards along a run (C28), and already \<open>100.00\<close> up to 100 bytes
  before the end of every input of at least 10000000 bytes (C29).

  \<^emph>\<open>Bounds.\<close> The theorems assume that the input is shorter than \<open>2 ^ 64\<close>
  bytes: \<open>ftell\<close> is read into \<open>uint64_t\<close>, and below that bound no offset,
  length or counter of the engine wraps.  (C's \<open>ftell\<close> returns a \<open>long\<close>, so
  a real file is limited to \<open>2 ^ 63 - 1\<close> bytes; the model reads the cursor
  modulo \<open>2 ^ 64\<close>.)  No fuel is used: the loops are partial functions and the
  theorems prove that they return.  \<open>atoi\<close> is modelled with unbounded
  integers; its round trip is stated below \<open>2 ^ 31\<close>, where C defines it.
  The doubles of the progress line are positive numbers between \<open>2 ^ -64\<close>
  and \<open>2 ^ 64 * 100\<close>, inside the normal range of binary64, so the model
  rounds to a 53-bit significand with an unbounded exponent and needs no
  subnormals, infinities or overflow; a zero file size, the one case outside
  it, gives \<open>0.0 / 0.0\<close> or \<open>x / 0.0\<close>, printed by glibc as \<open>-nan\<close>
  or \<open>inf\<close>.

  \<^emph>\<open>Not modelled.\<close> The file system beyond a store of contents keyed by
  path (links, permissions other than \<open>writable\<close>, concurrent writers);
  \<open>fflush\<close> and \<open>free\<close>, which have no observable effect on the files or
  the text of standard output; the failure of \<open>fclose\<close> (a full disk),
  which the program ignores; \<open>atoi\<close>'s undefined behaviour on \<open>int\<close> overflow.  The line counter
  \<open>current_line\<close> is computed and never read by the program; \<open>rw_inv\<close>
  characterises it.
\<close>

definition bytes :: "string \<Rightarrow> byte list" where
  "bytes s = map of_char s"

definition ctx_min3 :: fasta_context where
  "ctx_min3 = \<lparr>print_help = 0, file_input_path = ''in.fa'', file_output_path = ''out.fa'',
     sequence_length_minimum = 3, sequence_length_maximum = 0, show_progress = 0\<rparr>"

definition ctx_range2 :: fasta_context where
  "ctx_range2 = ctx_min3\<lparr>sequence_length_minimum := 2, sequence_length_maximum := 2\<rparr>"

definition ctx_unbounded :: fasta_context where
  "ctx_unbounded = ctx_min3\<lparr>sequence_length_minimum := 0\<rparr>"

definition ctx_progress :: fasta_context where
  "ctx_progress = ctx_unbounded\<lparr>show_progress := 1\<rparr>"

definition data_a :: "byte list" where
  "data_a = bytes ''>a\<newline>AC\<newline>''"

text \<open>The engine's state right after it has read the final newline of
  \<open>data_a\<close>: the record starts at 0, its sequence at 3, and it is 2 long.\<close>

definition eos_state :: rw_state where
  "eos_state = \<lparr>state = STATE_SEQUENCE, header_position = 0, sequence_position = 3,
     sequence_size = 2, file_position = 5, file_size = 6, total_of_sequences_kept = 0,
     total_of_sequences_discarded_above_maximum = 0,
     total_of_sequences_discarded_bellow_minimum = 0, current_line = 3,
     file_input = \<lparr>contents = data_a, position = 6\<rparr>, file_output = [], stdout = []\<rparr>"

text \<open>The engine's state after its first turn on \<open>data_a\<close>: it has read the
  \<open>'>'\<close> at offset 0 and is in the header line.\<close>

definition hdr_state :: rw_state where
  "hdr_state = \<lparr>state = STATE_HEADER, header_position = 0, sequence_position = 0,
     sequence_size = 0, file_position = 1, file_size = 6, total_of_sequences_kept = 0,
     total_of_sequences_discarded_above_maximum = 0,
     total_of_sequences_discarded_bellow_minimum = 0, current_line = 1,
     file_input = \<lparr>contents = data_a, position = 1\<rparr>, file_output = [], stdout = []\<rparr>"

lemma data_a_length: "length data_a = 6"
  by (simp add: data_a_def bytes_def)

lemma eos_state_matches: "matches data_a (InSequence 0 3 2) eos_state"
  by (simp add: eos_state_def matches_def)

lemma init_hdr_step: "rw_step ctx_min3 (init_state (fopen_read data_a) [] []) hdr_state"
  by (rule rw_step.read [where b = 62 and fin = "\<lparr>contents = data_a, position = 1\<rparr>"])
     (simp_all add: init_state_def fopen_read_def fseek_end_def fseek_set_def ftell_def
       fread_byte_def data_a_def bytes_def loop_body_def scan_byte_def report_progress_def
       hdr_state_def ctx_min3_def)

lemma hdr_state_reach: "rw_reach ctx_min3 data_a [] [] hdr_state"
  using rw_reach.step [OF rw_reach.start init_hdr_step] .

lemmas scenario_eval = bytes_def count_verdict_def fasta_filter_def records.simps next_record_def
  split_line_def keeps_def verdict_def rec_bytes_def ctx_min3_def ctx_unbounded_def

subsection \<open>The engine against its contract\<close>

text \<open>C1. For every input file shorter than \<open>2 ^ 64\<close> bytes,
  \<open>read_write_entries\<close> terminates; the output file holds exactly the records
  whose sequence length is within the range, in their original order and byte
  for byte, and the three totals count the kept, too short and too long
  records of the input.\<close>

theorem read_write_entries_refines_filter:
  assumes "length data < 2 ^ 64"
  shows "\<exists>s. read_write_entries ctx (fopen_read data) [] out = Some s
    \<and> file_output s = fasta_filter (unat (sequence_length_minimum ctx))
                                    (unat (sequence_length_maximum ctx)) data
    \<and> total_of_sequences_kept s = of_nat (count_verdict Kept (unat (sequence_length_minimum ctx))
                                         (unat (sequence_length_maximum ctx)) data)
    \<and> total_of_sequences_discarded_bellow_minimum s
        = of_nat (count_verdict Below (unat (sequence_length_minimum ctx))
                                      (unat (sequence_length_maximum ctx)) data)
    \<and> total_of_sequences_discarded_above_maximum s
        = of_nat (count_verdict Above (unat (sequence_length_minimum ctx))
                                      (unat (sequence_length_maximum ctx)) data)"
  using read_write_entries_result [OF assms, of ctx "[]" out] by auto

theorem read_write_entries_refines_filter_witness:
  "\<exists>s. read_write_entries ctx_min3 (fopen_read (bytes ''>seq1\<newline>ACGT\<newline>>seq2\<newline>AC\<newline>'')) [] [] = Some s
     \<and> file_output s = bytes ''>seq1\<newline>ACGT\<newline>''
     \<and> total_of_sequences_kept s = 1 \<and> total_of_sequences_discarded_bellow_minimum s = 1
     \<and> total_of_sequences_discarded_above_maximum s = 0"
proof -
  have len: "length (bytes ''>seq1\<newline>ACGT\<newline>>seq2\<newline>AC\<newline>'') < 2 ^ 64"
    by (simp add: bytes_def)
  have f: "fasta_filter 3 0 (bytes ''>seq1\<newline>ACGT\<newline>>seq2\<newline>AC\<newline>'') = bytes ''>seq1\<newline>ACGT\<newline>''"
    by (simp add: bytes_def fasta_filter_def records.simps next_record_def split_line_def
        keeps_def verdict_def rec_bytes_def)
  show ?thesis
    using read_write_entries_refines_filter [OF len, of ctx_min3 "[]"] f
    by (simp add: ctx_min3_def count_verdict_def bytes_def records.simps next_record_def
        split_line_def verdict_def)
qed

text \<open>C2. Copy-back transparency and inclusive bounds: when the newline that
  ends a sequence line is read and the line's length \<open>n\<close> satisfies
  \<open>minimum \<le> n\<close> and (\<open>maximum = 0\<close> or \<open>n \<le> maximum\<close>), \<open>end_of_sequence\<close>
  counts the record as kept, appends exactly the bytes from its \<open>'>'\<close> through
  that newline to the output, and leaves the input cursor where the forward
  scan left it, just after the newline.\<close>

theorem end_of_sequence_in_range:
  assumes "matches data (InSequence hp sp n) s" and "hp < sp" and "sp + n = p"
    and "position (file_input s) = Suc p" and "Suc p \<le> length data" and "length data < 2 ^ 64"
    and "unat (sequence_length_minimum ctx) \<le> n"
    and "sequence_length_maximum ctx = 0 \<or> n \<le> unat (sequence_length_maximum ctx)"
  shows "\<exists>s'. end_of_sequence ctx s = Some s'
    \<and> total_of_sequences_kept s' = total_of_sequences_kept s + 1
    \<and> file_output s' = file_output s @ slice data hp (Suc p)
    \<and> position (file_input s') = Suc p"
proof -
  have "entry_verdict ctx (hp, sp, n) = Kept"
    using assms(7,8) by (auto simp: entry_verdict_def entry_len_def verdict_def)
  moreover have "entry_bytes data (hp, sp, n) = slice data hp (Suc p)"
    using assms(3) by (simp add: entry_bytes_def)
  ultimately show ?thesis
    using end_of_sequence_sim [OF assms(1-6), of ctx]
    by (auto simp: scan_step_def emitted_def tally_def)
qed

theorem end_of_sequence_in_range_witness:
  "\<exists>s'. end_of_sequence ctx_range2 eos_state = Some s'
    \<and> total_of_sequences_kept s' = 1 \<and> file_output s' = data_a
    \<and> position (file_input s') = 6"
  using end_of_sequence_in_range [OF eos_state_matches, of 5 ctx_range2]
  by (simp add: eos_state_def data_a_length ctx_range2_def ctx_min3_def slice_def)

text \<open>C3. Discarded records: when the sequence line is shorter than the
  minimum, or longer than a non-zero maximum, \<open>end_of_sequence\<close> writes
  nothing, does not move the cursor, and increments exactly one of the two
  discard totals: the one below the minimum first.\<close>

theorem end_of_sequence_out_of_range:
  assumes "matches data (InSequence hp sp n) s" and "hp < sp" and "sp + n = p"
    and "position (file_input s) = Suc p" and "Suc p \<le> length data" and "length data < 2 ^ 64"
    and "n < unat (sequence_length_minimum ctx)
         \<or> (0 < unat (sequence_length_maximum ctx) \<and> unat (sequence_length_maximum ctx) < n)"
  shows "\<exists>s'. end_of_sequence ctx s = Some s'
    \<and> file_output s' = file_output s
    \<and> total_of_sequences_kept s' = total_of_sequences_kept s
    \<and> total_of_sequences_discarded_bellow_minimum s' = total_of_sequences_discarded_bellow_minimum s
        + (if n < unat (sequence_length_minimum ctx) then 1 else 0)
    \<and> total_of_sequences_discarded_above_maximum s' = total_of_sequences_discarded_above_maximum s
        + (if n < unat (sequence_length_minimum ctx) then 0 else 1)
    \<and> position (file_input s') = Suc p"
proof -
  have v: "entry_verdict ctx (hp, sp, n)
             = (if n < unat (sequence_length_minimum ctx) then Below else verdict.Above)"
    using assms(7) by (auto simp: entry_verdict_def entry_len_def verdict_def)
  show ?thesis
    using end_of_sequence_sim [OF assms(1-6), of ctx] v
    by (cases "n < unat (sequence_length_minimum ctx)")
       (auto simp: scan_step_def emitted_def tally_def)
qed

theorem end_of_sequence_out_of_range_witness:
  "\<exists>s'. end_of_sequence ctx_min3 eos_state = Some s'
    \<and> file_output s' = [] \<and> total_of_sequences_kept s' = 0
    \<and> total_of_sequences_discarded_bellow_minimum s' = 1
    \<and> total_of_sequences_discarded_above_maximum s' = 0 \<and> position (file_input s') = 6"
  using end_of_sequence_out_of_range [OF eos_state_matches, of 5 ctx_min3]
  by (simp add: eos_state_def data_a_length ctx_min3_def)

text \<open>Witness of C4 (\<open>Engine_Refinement.read_loop_terminates\<close>): the loop
  started as \<open>read_write_entries\<close> starts it.\<close>

theorem read_loop_terminates_witness:
  "\<exists>s'. read_loop ctx_range2 (init_state (fopen_read data_a) [] []) = Some s'
     \<and> position (file_input s') = 6 \<and> contents (file_input s') = data_a"
  using read_loop_terminates [OF init_state_matches(1) _ init_state_matches(2), of data_a ctx_range2 "[]" "[]"]
  by (simp add: data_a_length)

text \<open>C5. Idempotence (spec section 8): filtering the output of a run again
  with the same range reproduces it byte for byte.\<close>

theorem read_write_entries_idempotent:
  assumes "length data < 2 ^ 64"
  shows "\<exists>s1 s2. read_write_entries ctx (fopen_read data) [] out = Some s1
    \<and> read_write_entries ctx (fopen_read (file_output s1)) [] out' = Some s2
    \<and> file_output s2 = file_output s1"
proof -
  let ?mn = "unat (sequence_length_minimum ctx)" and ?mx = "unat (sequence_length_maximum ctx)"
  obtain s1 where r1: "read_write_entries ctx (fopen_read data) [] out = Some s1"
    and o1: "file_output s1 = fasta_filter ?mn ?mx data"
    using read_write_entries_result [OF assms, of ctx "[]" out] by auto
  have "length (file_output s1) < 2 ^ 64"
    using o1 fasta_filter_length [of ?mn ?mx data] assms by simp
  then obtain s2 where r2: "read_write_entries ctx (fopen_read (file_output s1)) [] out' = Some s2"
    and o2: "file_output s2 = fasta_filter ?mn ?mx (file_output s1)"
    using read_write_entries_result [of "file_output s1" ctx "[]" out'] by auto
  show ?thesis using r1 r2 o1 o2 by (simp add: fasta_filter_idem)
qed

theorem read_write_entries_idempotent_witness:
  "\<exists>s1 s2. read_write_entries ctx_min3 (fopen_read data_a) [] [] = Some s1
    \<and> read_write_entries ctx_min3 (fopen_read (file_output s1)) [] [] = Some s2
    \<and> file_output s2 = file_output s1"
  using read_write_entries_idempotent [of data_a ctx_min3 "[]" "[]"] by (simp add: data_a_length)

text \<open>C6. The totals do not wrap: read as unbounded numbers, the three
  totals add up to the number of complete records of the input.\<close>

theorem read_write_entries_totals:
  assumes "length data < 2 ^ 64"
  shows "\<exists>s. read_write_entries ctx (fopen_read data) [] out = Some s
    \<and> unat (total_of_sequences_kept s) + unat (total_of_sequences_discarded_bellow_minimum s)
      + unat (total_of_sequences_discarded_above_maximum s) = length (records data)"
proof -
  let ?mn = "unat (sequence_length_minimum ctx)" and ?mx = "unat (sequence_length_maximum ctx)"
  show ?thesis
    using read_write_entries_result [OF assms, of ctx "[]" out] unat_count_verdict [OF assms]
      count_verdict_sum
    by auto
qed

theorem read_write_entries_totals_witness:
  "\<exists>s. read_write_entries ctx_min3 (fopen_read data_a) [] [] = Some s
    \<and> unat (total_of_sequences_kept s) + unat (total_of_sequences_discarded_bellow_minimum s)
      + unat (total_of_sequences_discarded_above_maximum s) = 1"
  using read_write_entries_totals [of data_a ctx_min3 "[]"]
  by (simp add: data_a_length data_a_def bytes_def records.simps next_record_def split_line_def)

text \<open>C7. \<open>maximum = 0\<close> is unbounded: nothing is discarded as too long,
  and the output is every complete record whose sequence is at least the
  minimum long.\<close>

theorem read_write_entries_unbounded:
  assumes "length data < 2 ^ 64" and "sequence_length_maximum ctx = 0"
  shows "\<exists>s. read_write_entries ctx (fopen_read data) [] out = Some s
    \<and> total_of_sequences_discarded_above_maximum s = 0
    \<and> file_output s = concat (map rec_bytes
          (filter (\<lambda>r. unat (sequence_length_minimum ctx) \<le> length (snd r)) (records data)))"
proof -
  have "count_verdict Above mn 0 data = 0" for mn
    by (simp add: count_verdict_def verdict_def filter_empty_conv)
  moreover have "keeps mn 0 = (\<lambda>r. mn \<le> length (snd r))" for mn
    by (rule ext) (auto simp: keeps_def verdict_def)
  ultimately show ?thesis
    using read_write_entries_result [OF assms(1), of ctx "[]" out] assms(2)
    by (auto simp: fasta_filter_def)
qed

theorem read_write_entries_unbounded_witness:
  "\<exists>s. read_write_entries ctx_unbounded (fopen_read data_a) [] [] = Some s
    \<and> total_of_sequences_discarded_above_maximum s = 0 \<and> file_output s = data_a"
proof -
  have "length data_a < 2 ^ 64" "sequence_length_maximum ctx_unbounded = 0"
    by (simp_all add: data_a_length ctx_unbounded_def ctx_min3_def)
  from read_write_entries_unbounded [OF this, of "[]"] show ?thesis
    by (simp add: ctx_unbounded_def ctx_min3_def data_a_def bytes_def records.simps
        next_record_def split_line_def rec_bytes_def)
qed

text \<open>C8. Progress reporting (spec section 6): with \<open>show_progress = 1\<close> the
  engine reports the position after every byte whose position is a multiple
  of 100 and after the last byte, each with the file size, then the line
  break and the three totals.\<close>

theorem read_write_entries_progress:
  assumes "length data < 2 ^ 64" and "show_progress ctx = 1"
  shows "\<exists>s. read_write_entries ctx (fopen_read data) [] out = Some s
    \<and> stdout s = out
        @ map (\<lambda>q. Progress (word_of_nat q) (word_of_nat (length data)))
              (filter (\<lambda>q. q mod 100 = 0 \<or> q = length data) [1..<Suc (length data)])
        @ [Progress_End, Total_Kept (total_of_sequences_kept s),
           Total_Bellow (total_of_sequences_discarded_bellow_minimum s),
           Total_Above (total_of_sequences_discarded_above_maximum s)]"
proof -
  have "concat (map (progress_line ctx (word_of_nat (length data))) [1..<Suc (length data)])
        = concat (map (\<lambda>q. if q mod 100 = 0 \<or> q = length data
                          then [Progress (word_of_nat q) (word_of_nat (length data))] else [])
                     [1..<Suc (length data)])"
    using assms by (intro arg_cong [where f = concat] map_cong) (auto simp: progress_line_on_file)
  then show ?thesis
    using read_write_entries_result [OF assms(1), of ctx "[]" out] assms(2)
    by (auto simp: concat_map_singleton)
qed

theorem read_write_entries_progress_witness:
  "\<exists>s. read_write_entries ctx_progress (fopen_read data_a) [] [] = Some s
     \<and> stdout s = [Progress 6 6, Progress_End, Total_Kept 1, Total_Bellow 0, Total_Above 0]"
proof -
  have "length data_a < 2 ^ 64" "show_progress ctx_progress = 1"
    by (simp_all add: data_a_length ctx_progress_def ctx_unbounded_def ctx_min3_def)
  note R = read_write_entries_progress [OF this, of "[]"]
  have R1: "read_write_entries ctx_progress (fopen_read data_a) [] [] = Some s \<Longrightarrow>
      total_of_sequences_kept s = 1 \<and> total_of_sequences_discarded_bellow_minimum s = 0
      \<and> total_of_sequences_discarded_above_maximum s = 0" for s
    using read_write_entries_result [of data_a ctx_progress "[]" "[]"]
    by (auto simp: data_a_length count_verdict_def data_a_def bytes_def records.simps
        next_record_def split_line_def verdict_def ctx_progress_def ctx_unbounded_def ctx_min3_def)
  show ?thesis using R R1 by (auto simp: data_a_length upt_rec)
qed

text \<open>Witness of C9 (\<open>Engine.copy_record_past_eof\<close>): asked to copy up to
  offset 7 of the 6-byte \<open>data_a\<close>, the loop never returns.\<close>

theorem copy_record_past_eof_witness:
  "copy_record 7 \<lparr>contents = data_a, position = 6\<rparr> [] = None"
  using copy_record_past_eof [of "\<lparr>contents = data_a, position = 6\<rparr>" 7 "[]"]
  by (simp add: data_a_length)

subsection \<open>Inputs outside the single-line format\<close>

text \<open>C10. Whatever precedes the first \<open>'>'\<close> is skipped: in \<open>STATE_NONE\<close>
  only a \<open>'>'\<close> counts, so bytes before it, whole lines or the start of the
  line the \<open>'>'\<close> is on, are neither written nor counted, and the run writes
  and counts what it would for the input without them.\<close>

theorem read_write_entries_skips_before_header:
  assumes "GT \<notin> set junk" and "length (junk @ data) < 2 ^ 64"
  shows "\<exists>s s'. read_write_entries ctx (fopen_read (junk @ data)) [] [] = Some s
    \<and> read_write_entries ctx (fopen_read data) [] [] = Some s'
    \<and> file_output s = file_output s' \<and> total_of_sequences_kept s = total_of_sequences_kept s'
    \<and> total_of_sequences_discarded_bellow_minimum s = total_of_sequences_discarded_bellow_minimum s'
    \<and> total_of_sequences_discarded_above_maximum s = total_of_sequences_discarded_above_maximum s'"
proof -
  have "length data < 2 ^ 64" using assms(2) by simp
  then show ?thesis
    using read_write_entries_result [OF assms(2), of ctx "[]" "[]"]
      read_write_entries_result [of data ctx "[]" "[]"]
    by (auto simp: fasta_filter_def count_verdict_def records_skip [OF assms(1)])
qed

theorem read_write_entries_skips_before_header_witness:
  "\<exists>s s'. read_write_entries ctx_unbounded (fopen_read (bytes ''x'' @ bytes ''>b\<newline>AC\<newline>'')) [] [] = Some s
    \<and> read_write_entries ctx_unbounded (fopen_read (bytes ''>b\<newline>AC\<newline>'')) [] [] = Some s'
    \<and> file_output s = file_output s' \<and> total_of_sequences_kept s = total_of_sequences_kept s'
    \<and> total_of_sequences_discarded_bellow_minimum s = total_of_sequences_discarded_bellow_minimum s'
    \<and> total_of_sequences_discarded_above_maximum s = total_of_sequences_discarded_above_maximum s'"
  by (rule read_write_entries_skips_before_header) (simp_all add: bytes_def)

text \<open>C11. A last record whose sequence line has no newline (spec section 8,
  scenario 4) is neither written nor counted: bytes after the last newline
  of the input change neither the output nor the totals.\<close>

theorem read_write_entries_drops_unterminated:
  assumes "NL \<notin> set tail" and "length (data @ tail) < 2 ^ 64"
  shows "\<exists>s s'. read_write_entries ctx (fopen_read (data @ tail)) [] [] = Some s
    \<and> read_write_entries ctx (fopen_read data) [] [] = Some s'
    \<and> file_output s = file_output s' \<and> total_of_sequences_kept s = total_of_sequences_kept s'
    \<and> total_of_sequences_discarded_bellow_minimum s = total_of_sequences_discarded_bellow_minimum s'
    \<and> total_of_sequences_discarded_above_maximum s = total_of_sequences_discarded_above_maximum s'"
proof -
  have "length data < 2 ^ 64" using assms(2) by simp
  then show ?thesis
    using read_write_entries_result [OF assms(2), of ctx "[]" "[]"]
      read_write_entries_result [of data ctx "[]" "[]"]
    by (auto simp: fasta_filter_def count_verdict_def records_append_no_NL [OF assms(1)])
qed

theorem read_write_entries_drops_unterminated_witness:
  "\<exists>s s'. read_write_entries ctx_unbounded (fopen_read (bytes ''>a\<newline>AC\<newline>>b\<newline>'' @ bytes ''ACGT'')) [] [] = Some s
    \<and> read_write_entries ctx_unbounded (fopen_read (bytes ''>a\<newline>AC\<newline>>b\<newline>'')) [] [] = Some s'
    \<and> file_output s = file_output s' \<and> total_of_sequences_kept s = total_of_sequences_kept s'
    \<and> total_of_sequences_discarded_bellow_minimum s = total_of_sequences_discarded_bellow_minimum s'
    \<and> total_of_sequences_discarded_above_maximum s = total_of_sequences_discarded_above_maximum s'"
  by (rule read_write_entries_drops_unterminated) (simp_all add: bytes_def)

subsection \<open>The output file and the progress lines\<close>

text \<open>C24. Every progress line reports a position between 1 and the file
  size, and the size itself: the percentage \<open>position / size * 100\<close> of
  line 110 never divides by zero and never exceeds 100.\<close>

theorem read_write_entries_progress_bounds:
  assumes "length data < 2 ^ 64"
  shows "\<exists>s. read_write_entries ctx (fopen_read data) [] [] = Some s
    \<and> (\<forall>fp fs. Progress fp fs \<in> set (stdout s) \<longrightarrow>
         0 < fp \<and> fp \<le> fs \<and> fs = word_of_nat (length data))"
proof -
  obtain s where r: "read_write_entries ctx (fopen_read data) [] [] = Some s"
    and o: "stdout s = concat (map (progress_line ctx (word_of_nat (length data))) [1..<Suc (length data)])
        @ (if show_progress ctx = 1 then [Progress_End] else [])
        @ [Total_Kept (total_of_sequences_kept s),
           Total_Bellow (total_of_sequences_discarded_bellow_minimum s),
           Total_Above (total_of_sequences_discarded_above_maximum s)]"
    using read_write_entries_result [OF assms, of ctx "[]" "[]"] by auto
  have "0 < fp \<and> fp \<le> fs \<and> fs = word_of_nat (length data)" if "Progress fp fs \<in> set (stdout s)" for fp fs
  proof -
    have "Progress fp fs \<in> set (concat (map (progress_line ctx (word_of_nat (length data)))
                                          [1..<Suc (length data)]))"
      using that o by (auto split: if_splits simp del: upt_Suc)
    then obtain q where q: "1 \<le> q" "q \<le> length data"
      and l: "Progress fp fs \<in> set (progress_line ctx (word_of_nat (length data)) q)"
      by (auto simp del: upt_Suc)
    then have "fp = word_of_nat q" "fs = word_of_nat (length data)"
      by (auto simp: progress_line_def split: if_splits)
    moreover have "(0 :: u64) < word_of_nat q" "(word_of_nat q :: u64) \<le> word_of_nat (length data)"
      using q assms of_nat_less_u64 [of 0 q] of_nat_le_u64 [of q "length data"] by auto
    ultimately show ?thesis by simp
  qed
  with r show ?thesis by blast
qed

theorem read_write_entries_progress_bounds_witness:
  "\<exists>s. read_write_entries ctx_progress (fopen_read data_a) [] [] = Some s
    \<and> Progress 6 6 \<in> set (stdout s) \<and> (0 :: u64) < 6 \<and> (6 :: u64) \<le> 6"
proof -
  obtain s where r: "read_write_entries ctx_progress (fopen_read data_a) [] [] = Some s"
    and b: "\<forall>fp fs. Progress fp fs \<in> set (stdout s) \<longrightarrow>
         0 < fp \<and> fp \<le> fs \<and> fs = word_of_nat (length data_a)"
    using read_write_entries_progress_bounds [of data_a ctx_progress] data_a_length by auto
  have "Progress 6 6 \<in> set (stdout s)"
    using read_write_entries_result [of data_a ctx_progress "[]" "[]"] r data_a_length
    by (auto simp: progress_line_def ctx_progress_def ctx_unbounded_def ctx_min3_def
        PROGRESS_DIVISOR_def upt_rec)
  with r b show ?thesis by auto
qed

subsection \<open>The command line\<close>

definition args_min3 :: "string list" where
  "args_min3 = [''flfasta'', ''in.fa'', ''out.fa'', ''3'', ''0'', ''0'']"

definition atoi_min3 :: "string \<Rightarrow> int" where
  "atoi_min3 s = (if s = ''3'' then 3 else 0)"

text \<open>A file system holding \<open>data_a\<close> as \<open>in.fa\<close>.\<close>

definition fs_a :: "string \<rightharpoonup> byte list" where
  "fs_a = [''in.fa'' \<mapsto> data_a]"

lemma fs_a_small: "\<forall>p d. fs_a p = Some d \<longrightarrow> length d < 2 ^ 64"
  by (simp add: fs_a_def data_a_length)

text \<open>Witness of C12 (\<open>Cli.flfasta_main_filters\<close>): \<open>flfasta in.fa out.fa 3 0 0\<close>
  on \<open>data_a\<close>, whose only record is 2 long, creates an empty \<open>out.fa\<close>.\<close>

theorem flfasta_main_filters_witness:
  "\<exists>r. flfasta_main True atoi_min3 fs_a (\<lambda>p. True) args_min3 = Some r
     \<and> exit_status r = EXIT_SUCCESS \<and> files r = fs_a(''out.fa'' \<mapsto> [])"
proof -
  have "fasta_filter 3 0 data_a = []"
    by (simp add: data_a_def scenario_eval)
  then show ?thesis
    using flfasta_main_filters [of args_min3 fs_a data_a "\<lambda>p. True" atoi_min3]
    by (simp add: args_min3_def atoi_min3_def data_a_length fs_a_def)
qed

text \<open>Witness of C13 (\<open>Cli.flfasta_main_exit_status\<close>): an output that
  cannot be opened makes the run fail.\<close>

theorem flfasta_main_exit_status_witness:
  "\<exists>r. flfasta_main True atoi_min3 fs_a (\<lambda>p. False) args_min3 = Some r
     \<and> exit_status r = EXIT_FAILURE \<and> files r = fs_a"
  using flfasta_main_exit_status [of fs_a True atoi_min3 "\<lambda>p. False" args_min3] fs_a_small
  by (auto simp: args_min3_def)

text \<open>Witness of C14 (\<open>Cli.flfasta_main_help\<close>): the program name alone.\<close>

theorem flfasta_main_help_witness:
  "flfasta_main True atoi_min3 fs_a (\<lambda>p. False) [''flfasta'']
     = Some \<lparr>exit_status = EXIT_SUCCESS, main_stdout = [Help_Text], files = fs_a\<rparr>"
  using flfasta_main_help [of "[''flfasta'']" atoi_min3 fs_a "\<lambda>p. False"] by simp

text \<open>Witness of C23 (\<open>Cli.flfasta_main_same_file\<close>):
  \<open>flfasta in.fa in.fa 3 0 0\<close> empties \<open>in.fa\<close>.\<close>

theorem flfasta_main_same_file_witness:
  "\<exists>r. flfasta_main True atoi_min3 fs_a (\<lambda>p. True) [''flfasta'', ''in.fa'', ''in.fa'', ''3'', ''0'', ''0''] = Some r
     \<and> exit_status r = EXIT_SUCCESS \<and> files r = [''in.fa'' \<mapsto> []]"
  using flfasta_main_same_file [of "[''flfasta'', ''in.fa'', ''in.fa'', ''3'', ''0'', ''0'']" fs_a data_a
      "\<lambda>p. True" atoi_min3]
  by (simp add: fs_a_def)

text \<open>Witness of C15 (\<open>Cli.flfasta_main_negative_minimum\<close>):
  \<open>flfasta in.fa out.fa -1 0 0\<close> on \<open>data_a\<close>, whose record any minimum up to
  2 would keep.\<close>

theorem flfasta_main_negative_minimum_witness:
  "\<exists>r. flfasta_main True c_atoi fs_a (\<lambda>p. True) [''flfasta'', ''in.fa'', ''out.fa'', ''-1'', ''0'', ''0''] = Some r
     \<and> exit_status r = EXIT_SUCCESS \<and> files r = fs_a(''out.fa'' \<mapsto> [])"
proof -
  have "c_atoi ''-1'' = -1" by (simp add: c_atoi_def is_space_def is_digit_def)
  then show ?thesis
    using flfasta_main_negative_minimum [of "[''flfasta'', ''in.fa'', ''out.fa'', ''-1'', ''0'', ''0'']"
        fs_a data_a "\<lambda>p. True" c_atoi]
    by (simp add: fs_a_def data_a_length)
qed

subsection \<open>The loop as a step relation\<close>

text \<open>Witness of C16 (\<open>Engine_Steps.rw_inv_inductive\<close>) on \<open>data_a\<close>.\<close>

theorem rw_inv_inductive_witness:
  "rw_inv ctx_min3 data_a [] [] (init_state (fopen_read data_a) [] [])
   \<and> rw_inv ctx_min3 data_a [] [] hdr_state"
  using rw_inv_inductive [of data_a ctx_min3 "[]" "[]"] init_hdr_step by (auto simp: data_a_length)

text \<open>Witness of C17 (\<open>Engine_Steps.rw_reach_output_prefix\<close>): after the
  first byte of \<open>data_a\<close> nothing is written yet.\<close>

theorem rw_reach_output_prefix_witness:
  "file_output hdr_state = [] \<and> (\<exists>r. fasta_filter 3 0 data_a = file_output hdr_state @ r)"
  using rw_reach_output_prefix [OF hdr_state_reach] data_a_length
  by (simp add: hdr_state_def ctx_min3_def data_a_def scenario_eval)

text \<open>Witness of C18 (\<open>Engine_Steps.rw_reach_totals\<close>).\<close>

theorem rw_reach_totals_witness:
  "unat (total_of_sequences_kept hdr_state) + unat (total_of_sequences_discarded_bellow_minimum hdr_state)
     + unat (total_of_sequences_discarded_above_maximum hdr_state) = length (records (take 1 data_a))"
  using rw_reach_totals [OF hdr_state_reach] data_a_length by (simp add: hdr_state_def)

text \<open>Witness of C19 (\<open>Engine_Steps.rw_reach_seek_target\<close>): in the header
  line of \<open>data_a\<close>, the seek target is its \<open>'>'\<close>.\<close>

theorem rw_reach_seek_target_witness:
  "unat (header_position hdr_state) < 1 \<and> data_a ! unat (header_position hdr_state) = GT"
  using rw_reach_seek_target [OF hdr_state_reach] data_a_length by (simp add: hdr_state_def)

text \<open>Witness of C20 (\<open>Engine_Steps.rw_reach_reaches_end\<close>).\<close>

theorem rw_reach_reaches_end_witness:
  "\<exists>s'. (rw_step ctx_min3)\<^sup>*\<^sup>* hdr_state s' \<and> rw_final s' \<and> position (file_input s') = 6
     \<and> file_output s' = []"
proof -
  have "fasta_filter 3 0 data_a = []" by (simp add: data_a_def scenario_eval)
  then show ?thesis
    using rw_reach_reaches_end [OF hdr_state_reach] data_a_length by (simp add: ctx_min3_def)
qed

subsection \<open>The printed text\<close>

definition args_bounds :: "string list" where
  "args_bounds = [''flfasta'', ''in.fa'', ''out.fa'', ''3'', ''10'', ''0'']"

lemma c_atoi_eval: "c_atoi ''0'' = 0"
  by (simp add: c_atoi_def is_space_def is_digit_def)

text \<open>Witness of C21 (\<open>Stdout_Text.flfasta_main_echoes_bounds\<close>):
  \<open>flfasta in.fa out.fa 3 10 0\<close> on \<open>data_a\<close>.\<close>

theorem flfasta_main_echoes_bounds_witness:
  "\<exists>r. flfasta_main True c_atoi fs_a (\<lambda>p. True) args_bounds = Some r
    \<and> files r = fs_a(''out.fa'' \<mapsto> fasta_filter 3 10 data_a)
    \<and> (\<exists>rest. stdout_text (\<lambda>fp fs. []) (main_stdout r) =
        ''  Input: '' @ [DQ] @ ''in.fa'' @ [DQ] @ ''\<newline>''
        @ ''  Output: '' @ [DQ] @ ''out.fa'' @ [DQ] @ ''\<newline>''
        @ ''  Sequence minimum length: 3\<newline>''
        @ ''  Sequence maximum length: 10\<newline>'' @ rest)"
proof -
  have d: "args_bounds ! 3 = decimal 3" "args_bounds ! 4 = decimal 10"
    by (simp_all add: args_bounds_def decimal.simps digit_char_def)
  have h: "length args_bounds = 6" "fs_a (take 4095 (args_bounds ! 1)) = Some data_a"
    "(\<lambda>p. True) (take 4095 (args_bounds ! 2))" "take 4095 (args_bounds ! 1) \<noteq> take 4095 (args_bounds ! 2)"
    "length data_a < 2 ^ 64" "(3 :: nat) < 2 ^ 31" "(10 :: nat) < 2 ^ 31"
    by (simp_all add: args_bounds_def fs_a_def data_a_length)
  show ?thesis
    using flfasta_main_echoes_bounds [of args_bounds fs_a data_a "\<lambda>p. True" 3 10 "\<lambda>fp fs. []",
        OF h(1-5) d h(6,7)]
    by (simp add: args_bounds_def)
qed

text \<open>Witness of C22 (\<open>Stdout_Text.flfasta_main_stdout_text\<close>):
  \<open>flfasta in.fa out.fa 3 0 0\<close> on \<open>data_a\<close>, whose record is too short.\<close>

theorem flfasta_main_stdout_text_witness:
  "\<exists>r. flfasta_main True c_atoi fs_a (\<lambda>p. True) args_min3 = Some r
    \<and> stdout_text (\<lambda>fp fs. []) (main_stdout r) =
      ''  Input: '' @ [DQ] @ ''in.fa'' @ [DQ] @ ''\<newline>''
      @ ''  Output: '' @ [DQ] @ ''out.fa'' @ [DQ] @ ''\<newline>''
      @ ''  Sequence minimum length: 3\<newline>  Sequence maximum length: 0\<newline>''
      @ ''Total of sequences kept: 0.\<newline>''
      @ ''Total of sequences discarded bellow minimum: 1.\<newline>''
      @ ''Total of sequences discarded above maximum: 0.\<newline>''"
proof -
  have a: "c_atoi ''3'' = 3"
    using c_atoi_decimal [of 3] by (simp add: decimal.simps digit_char_def)
  have c: "count_verdict Kept 3 0 data_a = 0" "count_verdict Below 3 0 data_a = 1"
    "count_verdict verdict.Above 3 0 data_a = 0"
    by (simp_all add: data_a_def scenario_eval)
  have d: "decimal 0 = ''0''" "decimal (Suc 0) = ''1''" "decimal 3 = ''3''"
    by (simp_all add: decimal.simps digit_char_def)
  have h: "length args_min3 = 6"
    "fs_a (take 4095 (args_min3 ! 1)) = Some data_a"
    "(\<lambda>p. True) (take 4095 (args_min3 ! 2))"
    "take 4095 (args_min3 ! 1) \<noteq> take 4095 (args_min3 ! 2)" "length data_a < 2 ^ 64"
    "c_atoi (args_min3 ! 5) mod 256 \<noteq> 1"
    by (simp_all add: args_min3_def data_a_length c_atoi_eval fs_a_def)
  show ?thesis
    using flfasta_main_stdout_text [of args_min3 fs_a data_a "\<lambda>p. True" "\<lambda>fp fs. []", OF h]
    by (simp add: args_min3_def a c d c_atoi_eval)
qed

subsection \<open>The progress percentage\<close>

text \<open>Witness of C25 (\<open>Progress_Percent.progress_pct_accuracy\<close>): one third.\<close>

theorem progress_pct_accuracy_witness:
  "\<exists>r. progress_pct 1 3 = decimal (r div 100) @ ''.'' @ [digit_char (r mod 100 div 10), digit_char (r mod 10)]
    \<and> \<bar>of_nat r / 100 - exact_percent 1 3\<bar> \<le> 1 / 100"
  using progress_pct_accuracy [of 1 3] by simp

text \<open>Witness of C26 (\<open>Progress_Percent.progress_value_bounds\<close>): half of a
  6-byte file.\<close>

theorem progress_value_bounds_witness:
  "0 < progress_value 3 6 \<and> progress_value 3 6 \<le> 100 \<and> round_even (progress_value 3 6 * 100) \<le> 10000"
  using progress_value_bounds [of 3 6] by simp

text \<open>Witness of C27 (\<open>Progress_Percent.read_write_entries_progress_text\<close>):
  \<open>data_a\<close> with progress reporting.\<close>

theorem read_write_entries_progress_text_witness:
  "\<exists>s pre. read_write_entries ctx_progress (fopen_read data_a) [] [] = Some s
    \<and> stdout_text progress_pct (stdout s) =
        pre @ CR # ''Filtering by length at 100.00%.\<newline>''
        @ stdout_text progress_pct [Total_Kept (total_of_sequences_kept s),
             Total_Bellow (total_of_sequences_discarded_bellow_minimum s),
             Total_Above (total_of_sequences_discarded_above_maximum s)]"
proof -
  have "length data_a < 2 ^ 64" "0 < length data_a" "show_progress ctx_progress = 1"
    by (simp_all add: data_a_length ctx_progress_def)
  then show ?thesis by (rule read_write_entries_progress_text)
qed

text \<open>Witness of C28 (\<open>Progress_Percent.read_write_entries_progress_monotone\<close>):
  \<open>data_a\<close> with progress reporting.\<close>

theorem read_write_entries_progress_monotone_witness:
  "\<exists>s. read_write_entries ctx_progress (fopen_read data_a) [] [] = Some s
    \<and> sorted (progress_values (stdout s)) \<and> set (progress_values (stdout s)) \<subseteq> {0<..100}"
  using read_write_entries_progress_monotone [of data_a ctx_progress] data_a_length by simp

text \<open>Witness of C29 (\<open>Progress_Percent.read_write_entries_100_before_end\<close>):
  a file of 10000000 bytes with progress reporting.\<close>

theorem read_write_entries_100_before_end_witness:
  "\<exists>s fp. read_write_entries ctx_progress (fopen_read (replicate 10000000 65)) [] [] = Some s
    \<and> fp < 10000000
    \<and> Progress (word_of_nat fp) 10000000 \<in> set (stdout s)
    \<and> progress_pct (word_of_nat fp) 10000000 = ''100.00''"
proof -
  have "10000000 \<le> length (replicate 10000000 (65 :: byte))"
    "length (replicate 10000000 (65 :: byte)) < 2 ^ 64" "show_progress ctx_progress = 1"
    by (simp_all add: ctx_progress_def)
  from read_write_entries_100_before_end [OF this] show ?thesis by simp
qed

end
